theory Spec2Isabelle
  imports Main "HOL-Library.Word"
begin

section \<open>The host: pages, files and the system calls the library issues\<close>

text \<open>
  The library (\<^verbatim>\<open>mappedfile_linux.hpp\<close>) is a thin layer over \<^verbatim>\<open>mmap\<close>,
  \<^verbatim>\<open>munmap\<close>, \<^verbatim>\<open>mprotect\<close>, \<^verbatim>\<open>madvise\<close>, \<^verbatim>\<open>msync\<close>, \<^verbatim>\<open>open\<close>,
  \<^verbatim>\<open>fstat\<close> and \<^verbatim>\<open>ftruncate\<close>. The host is an explicit state, and every call takes
  the state and returns the updated one. Addresses and sizes are natural numbers;
  the null pointer is address \<open>0\<close>. Flags, which the C code combines with bitwise or,
  are sets. A file descriptor is the path it was opened on together with its access
  mode (unlink and rename are not part of the model). Any call can fail for a reason
  outside the program: the state carries a list of pending outcomes, one consumed by
  each call, \<open>True\<close> meaning that the call fails and changes nothing.

  The model is of the POSIX implementation. \<^verbatim>\<open>mappedfile_windows.hpp\<close> builds the same
  classes on \<^verbatim>\<open>NtCreateSection\<close>, \<^verbatim>\<open>NtExtendSection\<close> and \<^verbatim>\<open>NtMapViewOfSection\<close>, whose
  behaviour the sources do not determine; it is not modelled.
\<close>

type_synonym byte = "8 word"

datatype prot_flag = PROT_READ | PROT_WRITE

datatype map_flag =
  MAP_SHARED | MAP_PRIVATE | MAP_FIXED | MAP_FIXED_NOREPLACE | MAP_ANONYMOUS | MAP_NORESERVE

datatype open_flag = O_RDONLY | O_RDWR | O_CREAT

text \<open>What a page is backed by: anonymous memory, or a file from the given offset,
  shared (stores reach the file) or private (copy on write).\<close>

datatype backing = Anon | Shared string nat | Private string nat

record page =
  pg_prot :: "prot_flag set"
  pg_back :: backing

record world =
  w_pagesize :: nat
  w_top :: nat
  w_brk :: nat
  w_pages :: "nat \<Rightarrow> page option"
  w_mem :: "nat \<Rightarrow> byte"
  w_files :: "string \<Rightarrow> byte list option"
  w_dirty :: "string \<Rightarrow> nat \<Rightarrow> bool"
  w_faults :: "bool list"

text \<open>\<open>w_top\<close> is the first address past the user address space, \<open>w_brk\<close> the lowest
  address the kernel has not handed out yet, \<open>w_pages\<close> the page table by page number,
  \<open>w_mem\<close> the contents of anonymous and private pages by address, \<open>w_files\<close> the
  file system, \<open>w_dirty p k\<close> says that byte \<open>k\<close> of file \<open>p\<close> was stored through a
  shared mapping and not flushed since.\<close>

record FileDescriptor =
  fd_path :: string
  fd_rdwr :: bool

definition page_ceil :: "nat \<Rightarrow> nat \<Rightarrow> nat" where
  "page_ceil ps n = ((n + ps - 1) div ps) * ps"

definition page_floor :: "nat \<Rightarrow> nat \<Rightarrow> nat" where
  "page_floor ps n = (n div ps) * ps"

definition in_range :: "nat \<Rightarrow> nat \<Rightarrow> nat \<Rightarrow> bool" where
  "in_range lo n x = (lo \<le> x \<and> x < lo + n)"

text \<open>The page numbers of the pages that hold the bytes \<open>[addr, addr + len)\<close>.\<close>

definition first_page :: "world \<Rightarrow> nat \<Rightarrow> nat" where
  "first_page w addr = addr div w_pagesize w"

definition page_count :: "world \<Rightarrow> nat \<Rightarrow> nat" where
  "page_count w len = (len + w_pagesize w - 1) div w_pagesize w"

definition pages_mapped :: "world \<Rightarrow> nat \<Rightarrow> nat \<Rightarrow> bool" where
  "pages_mapped w addr len =
     list_all (\<lambda>p. w_pages w p \<noteq> None) [first_page w addr ..< first_page w addr + page_count w len]"

definition pages_free :: "world \<Rightarrow> nat \<Rightarrow> nat \<Rightarrow> bool" where
  "pages_free w addr len =
     list_all (\<lambda>p. w_pages w p = None) [first_page w addr ..< first_page w addr + page_count w len]"

definition take_fault :: "world \<Rightarrow> bool \<times> world" where
  "take_fault w =
     (case w_faults w of [] \<Rightarrow> (False, w) | f # fs \<Rightarrow> (f, w\<lparr>w_faults := fs\<rparr>))"

text \<open>The byte of a file at an offset; a hole or the tail of the last page reads as zero.\<close>

definition file_byte :: "byte list \<Rightarrow> nat \<Rightarrow> byte" where
  "file_byte bs k = (if k < length bs then bs ! k else 0)"

text \<open>\<^verbatim>\<open>mmap(addr, length, prot, flags, fd, offset)\<close>. The result is the address of the
  mapping, or \<open>None\<close> for \<^verbatim>\<open>MAP_FAILED\<close>. A length of zero is rejected (\<^verbatim>\<open>EINVAL\<close>),
  as is a request that is neither shared nor private, or both. A file mapping needs an
  existing file, and a shared writable one a descriptor opened for writing. With
  \<^verbatim>\<open>MAP_FIXED\<close> the pages at \<open>addr\<close> are replaced and \<open>addr\<close> is returned; without it
  the kernel picks the address (here the lowest one it never handed out, the hint being
  ignored), and fails when the address space is exhausted. The pages of a private or
  anonymous mapping start as a copy of the file or as zeroes.\<close>

definition os_mmap ::
  "nat \<Rightarrow> nat \<Rightarrow> prot_flag set \<Rightarrow> map_flag set \<Rightarrow> FileDescriptor option \<Rightarrow> nat \<Rightarrow> world
     \<Rightarrow> nat option \<times> world" where
  "os_mmap addr len prot flags fd off w0 =
     (let (failed, w) = take_fault w0;
          ps = w_pagesize w;
          fixed = (MAP_FIXED \<in> flags \<or> MAP_FIXED_NOREPLACE \<in> flags);
          anon = (MAP_ANONYMOUS \<in> flags);
          shared = (MAP_SHARED \<in> flags);
          a = (if fixed then addr else w_brk w);
          content = (if anon then None else
                       (case fd of None \<Rightarrow> None | Some d \<Rightarrow> w_files w (fd_path d)))
      in if failed then (None, w)
         else if len = 0 then (None, w)
         else if shared = (MAP_PRIVATE \<in> flags) then (None, w)
         else if \<not> anon \<and> content = None then (None, w)
         else if \<not> anon \<and> off mod ps \<noteq> 0 then (None, w)
         else if \<not> anon \<and> shared \<and> PROT_WRITE \<in> prot \<and> \<not> fd_rdwr (the fd) then (None, w)
         else if fixed \<and> a mod ps \<noteq> 0 then (None, w)
         else if a + page_ceil ps len > w_top w then (None, w)
         else if MAP_FIXED_NOREPLACE \<in> flags \<and> \<not> pages_free w a len then (None, w)
         else
           (Some a,
            w\<lparr>w_brk := (if fixed then w_brk w else w_brk w + page_ceil ps len),
              w_pages := (\<lambda>p. if in_range (a div ps) (page_count w len) p
                               then Some \<lparr>pg_prot = prot,
                                          pg_back = (if anon then Anon
                                                     else if shared
                                                     then Shared (fd_path (the fd)) (off + (p - a div ps) * ps)
                                                     else Private (fd_path (the fd)) (off + (p - a div ps) * ps))\<rparr>
                               else w_pages w p),
              w_mem := (\<lambda>x. if in_range a (page_ceil ps len) x
                             then (case content of None \<Rightarrow> 0
                                   | Some bs \<Rightarrow> file_byte bs (off + (x - a)))
                             else w_mem w x)\<rparr>))"

text \<open>\<^verbatim>\<open>munmap(addr, length)\<close>: \<open>True\<close> on success.\<close>

definition os_munmap :: "nat \<Rightarrow> nat \<Rightarrow> world \<Rightarrow> bool \<times> world" where
  "os_munmap addr len w0 =
     (let (failed, w) = take_fault w0; ps = w_pagesize w
      in if failed \<or> len = 0 \<or> addr mod ps \<noteq> 0 then (False, w)
         else (True, w\<lparr>w_pages := (\<lambda>p. if in_range (addr div ps) (page_count w len) p
                                        then None else w_pages w p)\<rparr>))"

text \<open>\<^verbatim>\<open>mprotect(addr, length, prot)\<close>: the address must be page aligned and every
  page of the range mapped (\<^verbatim>\<open>ENOMEM\<close> otherwise); contents are untouched.\<close>

definition os_mprotect :: "nat \<Rightarrow> nat \<Rightarrow> prot_flag set \<Rightarrow> world \<Rightarrow> bool \<times> world" where
  "os_mprotect addr len prot w0 =
     (let (failed, w) = take_fault w0; ps = w_pagesize w
      in if failed \<or> addr mod ps \<noteq> 0 \<or> \<not> pages_mapped w addr len then (False, w)
         else (True, w\<lparr>w_pages := (\<lambda>p. if in_range (addr div ps) (page_count w len) p
                                        then map_option (\<lambda>g. g\<lparr>pg_prot := prot\<rparr>) (w_pages w p)
                                        else w_pages w p)\<rparr>))"

text \<open>\<^verbatim>\<open>madvise(addr, length, MADV_DONTNEED)\<close>: the pages of the range are dropped; an
  anonymous page reads as zeroes afterwards, a private file page as the file again, a
  shared page is unaffected.\<close>

definition os_madvise_dontneed :: "nat \<Rightarrow> nat \<Rightarrow> world \<Rightarrow> bool \<times> world" where
  "os_madvise_dontneed addr len w0 =
     (let (failed, w) = take_fault w0; ps = w_pagesize w
      in if failed \<or> addr mod ps \<noteq> 0 \<or> \<not> pages_mapped w addr len then (False, w)
         else (True, w\<lparr>w_mem := (\<lambda>x. if in_range (addr div ps) (page_count w len) (x div ps)
                                      then (case w_pages w (x div ps) of
                                              Some g \<Rightarrow>
                                                (case pg_back g of
                                                   Private f off \<Rightarrow>
                                                     (case w_files w f of None \<Rightarrow> 0
                                                      | Some bs \<Rightarrow> file_byte bs (off + x mod ps))
                                                 | _ \<Rightarrow> 0)
                                            | None \<Rightarrow> 0)
                                      else w_mem w x)\<rparr>))"

text \<open>\<^verbatim>\<open>msync(addr, length, MS_SYNC | MS_INVALIDATE)\<close>: every byte of a file that a
  shared page of the range holds is written back, and no longer dirty.\<close>

definition page_holds :: "world \<Rightarrow> nat \<Rightarrow> string \<Rightarrow> nat \<Rightarrow> bool" where
  "page_holds w p f k =
     (case w_pages w p of
        Some g \<Rightarrow> (case pg_back g of
                     Shared f' off \<Rightarrow> f' = f \<and> in_range off (w_pagesize w) k
                   | _ \<Rightarrow> False)
      | None \<Rightarrow> False)"

definition os_msync :: "nat \<Rightarrow> nat \<Rightarrow> world \<Rightarrow> bool \<times> world" where
  "os_msync addr len w0 =
     (let (failed, w) = take_fault w0; ps = w_pagesize w
      in if failed \<or> addr mod ps \<noteq> 0 \<or> \<not> pages_mapped w addr len then (False, w)
         else (True, w\<lparr>w_dirty := (\<lambda>f k. w_dirty w f k \<and>
                                       \<not> list_ex (\<lambda>p. page_holds w p f k)
                                           [addr div ps ..< addr div ps + page_count w len])\<rparr>))"

text \<open>\<^verbatim>\<open>open(path, flags, mode)\<close>: \<^verbatim>\<open>O_CREAT\<close> creates a missing file, empty.\<close>

definition os_open :: "string \<Rightarrow> open_flag set \<Rightarrow> world \<Rightarrow> FileDescriptor option \<times> world" where
  "os_open path flags w0 =
     (let (failed, w) = take_fault w0
      in if failed then (None, w)
         else (case w_files w path of
                 Some bs \<Rightarrow> (Some \<lparr>fd_path = path, fd_rdwr = (O_RDWR \<in> flags)\<rparr>, w)
               | None \<Rightarrow>
                   if O_CREAT \<in> flags
                   then (Some \<lparr>fd_path = path, fd_rdwr = (O_RDWR \<in> flags)\<rparr>,
                         w\<lparr>w_files := (w_files w)(path := Some [])\<rparr>)
                   else (None, w)))"

text \<open>\<^verbatim>\<open>fstat(fd, &result)\<close>, of which the library reads \<^verbatim>\<open>st_size\<close> only.\<close>

definition os_fstat_size :: "FileDescriptor \<Rightarrow> world \<Rightarrow> nat option \<times> world" where
  "os_fstat_size fd w0 =
     (let (failed, w) = take_fault w0
      in if failed then (None, w)
         else (map_option length (w_files w (fd_path fd)), w))"

text \<open>\<^verbatim>\<open>ftruncate(fd, size)\<close>: the file gets exactly this length, cut or extended with
  zero bytes.\<close>

definition os_ftruncate :: "FileDescriptor \<Rightarrow> nat \<Rightarrow> world \<Rightarrow> bool \<times> world" where
  "os_ftruncate fd n w0 =
     (let (failed, w) = take_fault w0
      in if failed \<or> \<not> fd_rdwr fd then (False, w)
         else (case w_files w (fd_path fd) of
                 None \<Rightarrow> (False, w)
               | Some bs \<Rightarrow>
                   (True, w\<lparr>w_files := (w_files w)(fd_path fd := Some (take n bs @ replicate (n - length bs) 0))\<rparr>)))"

text \<open>What the program's own loads and stores through a pointer do. \<open>None\<close> is a
  fault (\<^verbatim>\<open>SIGSEGV\<close>, or \<^verbatim>\<open>SIGBUS\<close> beyond the last page of the file).\<close>

definition peek :: "world \<Rightarrow> nat \<Rightarrow> byte option" where
  "peek w x =
     (case w_pages w (x div w_pagesize w) of
        None \<Rightarrow> None
      | Some g \<Rightarrow>
          if PROT_READ \<notin> pg_prot g then None
          else (case pg_back g of
                  Shared f off \<Rightarrow>
                    (case w_files w f of
                       None \<Rightarrow> None
                     | Some bs \<Rightarrow>
                         if off + x mod w_pagesize w < page_ceil (w_pagesize w) (length bs)
                         then Some (file_byte bs (off + x mod w_pagesize w)) else None)
                | _ \<Rightarrow> Some (w_mem w x)))"

definition poke :: "nat \<Rightarrow> byte \<Rightarrow> world \<Rightarrow> world option" where
  "poke x b w =
     (case w_pages w (x div w_pagesize w) of
        None \<Rightarrow> None
      | Some g \<Rightarrow>
          if PROT_WRITE \<notin> pg_prot g then None
          else (case pg_back g of
                  Shared f off \<Rightarrow>
                    (case w_files w f of
                       None \<Rightarrow> None
                     | Some bs \<Rightarrow>
                         (let k = off + x mod w_pagesize w
                          in if k < length bs
                             then Some (w\<lparr>w_files := (w_files w)(f := Some (bs[k := b])),
                                          w_dirty := (w_dirty w)(f := (w_dirty w f)(k := True))\<rparr>)
                             else if k < page_ceil (w_pagesize w) (length bs) then Some w
                             else None))
                | _ \<Rightarrow> Some (w\<lparr>w_mem := (w_mem w)(x := b)\<rparr>)))"


section \<open>The library: \<^verbatim>\<open>mappedfile_linux.hpp\<close>\<close>

text \<open>An exception is a value. \<open>bad_alloc\<close> is \<^verbatim>\<open>std::bad_alloc\<close>, \<open>mapping_error\<close>
  and \<open>mapped_file_error\<close> are the library's own (\<^verbatim>\<open>LastError\<close>,
  \<^verbatim>\<open>LastMappedFileError\<close>), and \<open>terminated\<close> stands for \<^verbatim>\<open>std::terminate\<close>, which
  is what an exception leaving a destructor amounts to; \<open>bounds_violation\<close> is
  raised by \<open>ResizableMappedFile_sync\<close> below only. A constructor returns the
  object or the exception; a method returns the exception if any, with the object as
  it is left.\<close>

datatype error = bad_alloc | mapping_error | mapped_file_error | terminated | bounds_violation

definition pageSize :: "world \<Rightarrow> nat" where
  "pageSize w = w_pagesize w"

subsection \<open>\<^verbatim>\<open>class FileDescriptor\<close>\<close>

definition FileDescriptor_ctor ::
  "string \<Rightarrow> open_flag set \<Rightarrow> world \<Rightarrow> (error + FileDescriptor) \<times> world" where
  "FileDescriptor_ctor path flags w =
     (case os_open path flags w of
        (None, w') \<Rightarrow> (Inl mapped_file_error, w')
      | (Some fd, w') \<Rightarrow> (Inr fd, w'))"

definition FileDescriptor_size :: "FileDescriptor \<Rightarrow> world \<Rightarrow> (error + nat) \<times> world" where
  "FileDescriptor_size fd w =
     (case os_fstat_size fd w of
        (None, w') \<Rightarrow> (Inl mapping_error, w')
      | (Some n, w') \<Rightarrow> (Inr n, w'))"

definition FileDescriptor_truncate :: "FileDescriptor \<Rightarrow> nat \<Rightarrow> world \<Rightarrow> error option \<times> world" where
  "FileDescriptor_truncate fd n w =
     (case os_ftruncate fd n w of
        (False, w') \<Rightarrow> (Some mapping_error, w')
      | (True, w') \<Rightarrow> (None, w'))"

subsection \<open>\<^verbatim>\<open>template <int MemoryProtection> class MemoryMap\<close>\<close>

text \<open>The template parameter is the field \<open>mm_prot\<close>. Moved-from objects
  (\<^verbatim>\<open>m_address == MAP_FAILED\<close>) do not occur: moves are not modelled.\<close>

record MemoryMap =
  mm_prot :: "prot_flag set"
  mm_size :: nat
  mm_address :: nat
  mm_fixed :: bool

definition MemoryMap_ctor ::
  "prot_flag set \<Rightarrow> nat \<Rightarrow> nat \<Rightarrow> map_flag set \<Rightarrow> FileDescriptor option \<Rightarrow> nat \<Rightarrow> world
     \<Rightarrow> (error + MemoryMap) \<times> world" where
  "MemoryMap_ctor prot addr len flags fd off w =
     (case os_mmap addr len prot flags fd off w of
        (None, w') \<Rightarrow> (Inl mapping_error, w')
      | (Some a, w') \<Rightarrow>
          (Inr \<lparr>mm_prot = prot, mm_size = len, mm_address = a,
                mm_fixed = (MAP_FIXED \<in> flags \<or> MAP_FIXED_NOREPLACE \<in> flags)\<rparr>, w'))"

definition MemoryMap_sync :: "MemoryMap \<Rightarrow> world \<Rightarrow> error option \<times> world" where
  "MemoryMap_sync m w =
     (case os_msync (mm_address m) (mm_size m) w of
        (False, w') \<Rightarrow> (Some mapping_error, w')
      | (True, w') \<Rightarrow> (None, w'))"

definition MemoryMap_unmap :: "MemoryMap \<Rightarrow> world \<Rightarrow> error option \<times> world" where
  "MemoryMap_unmap m w =
     (case (if PROT_WRITE \<in> mm_prot m then MemoryMap_sync m w else (None, w)) of
        (Some e, w1) \<Rightarrow> (Some e, w1)
      | (None, w1) \<Rightarrow>
          if mm_fixed m
          then (case os_mmap (mm_address m) (mm_size m) {} {MAP_FIXED, MAP_PRIVATE, MAP_ANONYMOUS}
                       None 0 w1 of
                  (None, w2) \<Rightarrow> (Some mapping_error, w2)
                | (Some a, w2) \<Rightarrow> (None, w2))
          else (case os_munmap (mm_address m) (mm_size m) w1 of
                  (False, w2) \<Rightarrow> (Some mapping_error, w2)
                | (True, w2) \<Rightarrow> (None, w2)))"

text \<open>\<^verbatim>\<open>~MemoryMap() { unmap(); }\<close>: the destructor is \<^verbatim>\<open>noexcept\<close>, so a throwing
  \<^verbatim>\<open>unmap\<close> ends the program.\<close>

definition MemoryMap_dtor :: "MemoryMap \<Rightarrow> world \<Rightarrow> error option \<times> world" where
  "MemoryMap_dtor m w =
     (case MemoryMap_unmap m w of
        (Some e, w') \<Rightarrow> (Some terminated, w')
      | (None, w') \<Rightarrow> (None, w'))"

subsection \<open>\<^verbatim>\<open>template <bool Writable> class MappedFile\<close>\<close>

record MappedFile =
  mf_file :: FileDescriptor
  mf_mapped :: MemoryMap

definition MappedFile_ctor ::
  "bool \<Rightarrow> string \<Rightarrow> map_flag set \<Rightarrow> world \<Rightarrow> (error + MappedFile) \<times> world" where
  "MappedFile_ctor Writable path mapFlags w =
     (case FileDescriptor_ctor path {if Writable then O_RDWR else O_RDONLY} w of
        (Inl e, w1) \<Rightarrow> (Inl e, w1)
      | (Inr file, w1) \<Rightarrow>
          (case FileDescriptor_size file w1 of
             (Inl e, w2) \<Rightarrow> (Inl e, w2)
           | (Inr sz, w2) \<Rightarrow>
               (case MemoryMap_ctor (if Writable then {PROT_READ, PROT_WRITE} else {PROT_READ})
                       0 sz mapFlags (Some file) 0 w2 of
                  (Inl e, w3) \<Rightarrow> (Inl e, w3)
                | (Inr m, w3) \<Rightarrow> (Inr \<lparr>mf_file = file, mf_mapped = m\<rparr>, w3))))"

text \<open>The constructor as the public aliases \<^verbatim>\<open>file\<close> and \<^verbatim>\<open>writable_file\<close> call it,
  with the default argument \<^verbatim>\<open>int mapFlags = MAP_PRIVATE\<close>.\<close>

definition MappedFile_open :: "bool \<Rightarrow> string \<Rightarrow> world \<Rightarrow> (error + MappedFile) \<times> world" where
  "MappedFile_open Writable path w = MappedFile_ctor Writable path {MAP_PRIVATE} w"

definition MappedFile_data :: "MappedFile \<Rightarrow> nat" where
  "MappedFile_data f = mm_address (mf_mapped f)"

definition MappedFile_size :: "MappedFile \<Rightarrow> nat" where
  "MappedFile_size f = mm_size (mf_mapped f)"

text \<open>Dropping the object destroys \<^verbatim>\<open>m_mapped\<close>, then \<^verbatim>\<open>m_file\<close> (a \<^verbatim>\<open>close\<close>).\<close>

definition MappedFile_dtor :: "MappedFile \<Rightarrow> world \<Rightarrow> error option \<times> world" where
  "MappedFile_dtor f w = MemoryMap_dtor (mf_mapped f) w"

subsection \<open>\<^verbatim>\<open>class ResizableMappedFile\<close>\<close>

record ResizableMappedFile =
  rmf_reserved :: MemoryMap
  rmf_file :: FileDescriptor
  rmf_mapped :: "MemoryMap option"

definition throwIfAbove :: "nat \<Rightarrow> nat \<Rightarrow> error + nat" where
  "throwIfAbove v limit = (if v > limit then Inl bad_alloc else Inr v)"

definition ResizableMappedFile_data :: "ResizableMappedFile \<Rightarrow> nat" where
  "ResizableMappedFile_data r = (case rmf_mapped r of Some m \<Rightarrow> mm_address m | None \<Rightarrow> 0)"

definition ResizableMappedFile_size :: "ResizableMappedFile \<Rightarrow> nat" where
  "ResizableMappedFile_size r = (case rmf_mapped r of Some m \<Rightarrow> mm_size m | None \<Rightarrow> 0)"

definition ResizableMappedFile_capacity :: "ResizableMappedFile \<Rightarrow> nat" where
  "ResizableMappedFile_capacity r = mm_size (rmf_reserved r)"

text \<open>\<^verbatim>\<open>m_mapped.reset()\<close>: destroys the view if there is one.\<close>

definition reset_mapped :: "ResizableMappedFile \<Rightarrow> world \<Rightarrow> error option \<times> ResizableMappedFile \<times> world" where
  "reset_mapped r w =
     (case rmf_mapped r of
        None \<Rightarrow> (None, r, w)
      | Some m \<Rightarrow>
          (case MemoryMap_dtor m w of
             (Some e, w') \<Rightarrow> (Some e, r, w')
           | (None, w') \<Rightarrow> (None, r\<lparr>rmf_mapped := None\<rparr>, w')))"

text \<open>\<^verbatim>\<open>map(size)\<close>: \<^verbatim>\<open>m_mapped.emplace(...)\<close> destroys a present view first and leaves
  the optional empty when the new view's constructor throws.\<close>

definition ResizableMappedFile_map ::
  "nat \<Rightarrow> ResizableMappedFile \<Rightarrow> world \<Rightarrow> error option \<times> ResizableMappedFile \<times> world" where
  "ResizableMappedFile_map sz r w =
     (case reset_mapped r w of
        (Some e, r1, w1) \<Rightarrow> (Some e, r1, w1)
      | (None, r1, w1) \<Rightarrow>
          (case MemoryMap_ctor {PROT_READ, PROT_WRITE} (mm_address (rmf_reserved r1)) sz
                  {MAP_FIXED, MAP_SHARED} (Some (rmf_file r1)) 0 w1 of
             (Inl e, w2) \<Rightarrow> (Some e, r1, w2)
           | (Inr m, w2) \<Rightarrow> (None, r1\<lparr>rmf_mapped := Some m\<rparr>, w2)))"

text \<open>Leaving the constructor by an exception destroys the members built so far, in
  reverse order: the (empty) view, the descriptor, the reservation.\<close>

definition unwind_reserved :: "MemoryMap \<Rightarrow> error \<Rightarrow> world \<Rightarrow> (error + 'a) \<times> world" where
  "unwind_reserved reserved e w =
     (case MemoryMap_dtor reserved w of
        (Some t, w') \<Rightarrow> (Inl t, w')
      | (None, w') \<Rightarrow> (Inl e, w'))"

definition ResizableMappedFile_ctor ::
  "string \<Rightarrow> nat \<Rightarrow> world \<Rightarrow> (error + ResizableMappedFile) \<times> world" where
  "ResizableMappedFile_ctor path maxSize w =
     (case MemoryMap_ctor {} 0 maxSize {MAP_PRIVATE, MAP_ANONYMOUS, MAP_NORESERVE} None 0 w of
        (Inl e, w1) \<Rightarrow> (Inl e, w1)
      | (Inr reserved, w1) \<Rightarrow>
          (case FileDescriptor_ctor path {O_CREAT, O_RDWR} w1 of
             (Inl e, w2) \<Rightarrow> unwind_reserved reserved e w2
           | (Inr file, w2) \<Rightarrow>
               (case FileDescriptor_size file w2 of
                  (Inl e, w3) \<Rightarrow> unwind_reserved reserved e w3
                | (Inr fsize, w3) \<Rightarrow>
                    (case throwIfAbove fsize (mm_size reserved) of
                       Inl e \<Rightarrow> unwind_reserved reserved e w3
                     | Inr sz \<Rightarrow>
                         (let r = \<lparr>rmf_reserved = reserved, rmf_file = file, rmf_mapped = None\<rparr>
                          in if sz \<noteq> 0
                             then (case ResizableMappedFile_map sz r w3 of
                                     (Some e, r', w4) \<Rightarrow> unwind_reserved reserved e w4
                                   | (None, r', w4) \<Rightarrow> (Inr r', w4))
                             else (Inr r, w3))))))"

definition ResizableMappedFile_resize ::
  "nat \<Rightarrow> ResizableMappedFile \<Rightarrow> world \<Rightarrow> error option \<times> ResizableMappedFile \<times> world" where
  "ResizableMappedFile_resize n r w =
     (case throwIfAbove n (mm_size (rmf_reserved r)) of
        Inl e \<Rightarrow> (Some e, r, w)
      | Inr sz \<Rightarrow>
          (case reset_mapped r w of
             (Some e, r1, w1) \<Rightarrow> (Some e, r1, w1)
           | (None, r1, w1) \<Rightarrow>
               (case FileDescriptor_truncate (rmf_file r1) sz w1 of
                  (Some e, w2) \<Rightarrow> (Some e, r1, w2)
                | (None, w2) \<Rightarrow>
                    if sz \<noteq> 0 then ResizableMappedFile_map sz r1 w2 else (None, r1, w2))))"

subsection \<open>\<^verbatim>\<open>class ResizableMappedMemory\<close>\<close>

record ResizableMappedMemory =
  rmm_reserved :: MemoryMap
  rmm_size :: nat
  rmm_mappedSize :: nat

definition ResizableMappedMemory_data :: "ResizableMappedMemory \<Rightarrow> nat" where
  "ResizableMappedMemory_data r = (if rmm_size r \<noteq> 0 then mm_address (rmm_reserved r) else 0)"

definition ResizableMappedMemory_size :: "ResizableMappedMemory \<Rightarrow> nat" where
  "ResizableMappedMemory_size r = rmm_size r"

definition ResizableMappedMemory_capacity :: "ResizableMappedMemory \<Rightarrow> nat" where
  "ResizableMappedMemory_capacity r = mm_size (rmm_reserved r)"

text \<open>\<^verbatim>\<open>size_t newMappedSize = ((size + ps - 1) / ps) * ps;\<close> in 64-bit unsigned
  arithmetic, the wrap-around written out.\<close>

definition newMappedSize :: "nat \<Rightarrow> nat \<Rightarrow> nat" where
  "newMappedSize ps sz =
     ((((sz + ps + (2 ^ 64 - 1)) mod 2 ^ 64) div ps) * ps) mod 2 ^ 64"

definition ResizableMappedMemory_resize ::
  "nat \<Rightarrow> ResizableMappedMemory \<Rightarrow> world \<Rightarrow> error option \<times> ResizableMappedMemory \<times> world" where
  "ResizableMappedMemory_resize sz r w =
     (if sz > ResizableMappedMemory_capacity r then (Some bad_alloc, r, w)
      else
        (let ps = pageSize w;
             new = newMappedSize ps sz;
             old = rmm_mappedSize r;
             base = mm_address (rmm_reserved r)
         in if new > old
            then (case os_mprotect (base + old) (new - old) {PROT_READ, PROT_WRITE} w of
                    (False, w1) \<Rightarrow> (Some mapping_error, r, w1)
                  | (True, w1) \<Rightarrow> (None, r\<lparr>rmm_size := sz, rmm_mappedSize := new\<rparr>, w1))
            else if new < old
            then (case os_mprotect (base + new) (old - new) {} w of
                    (False, w1) \<Rightarrow> (Some mapping_error, r, w1)
                  | (True, w1) \<Rightarrow>
                      (case os_madvise_dontneed (base + new) (old - new) w1 of
                         (False, w2) \<Rightarrow> (Some mapping_error, r, w2)
                       | (True, w2) \<Rightarrow>
                           (None, r\<lparr>rmm_size := sz, rmm_mappedSize := new\<rparr>, w2)))
            else (None, r\<lparr>rmm_size := sz, rmm_mappedSize := new\<rparr>, w)))"

definition ResizableMappedMemory_ctor ::
  "nat \<Rightarrow> nat \<Rightarrow> world \<Rightarrow> (error + ResizableMappedMemory) \<times> world" where
  "ResizableMappedMemory_ctor initialSize maxSize w =
     (case MemoryMap_ctor {} 0 maxSize {MAP_PRIVATE, MAP_ANONYMOUS, MAP_NORESERVE} None 0 w of
        (Inl e, w1) \<Rightarrow> (Inl e, w1)
      | (Inr reserved, w1) \<Rightarrow>
          (case ResizableMappedMemory_resize initialSize
                  \<lparr>rmm_reserved = reserved, rmm_size = 0, rmm_mappedSize = 0\<rparr> w1 of
             (Some e, r, w2) \<Rightarrow> unwind_reserved reserved e w2
           | (None, r, w2) \<Rightarrow> (Inr r, w2)))"


text \<open>Modelled from the spec: \<^verbatim>\<open>ResizableMappedFile::sync(offset, length)\<close>. The
  interface header requires the method of \<^verbatim>\<open>resizable_file\<close>
  (\<^verbatim>\<open>concept resizable_mapped_file\<close>), the implementation at hand does not have it.
  The specification says: ``\<^verbatim>\<open>sync(offset=0, length=size)\<close> issues a synchronous page
  flush over the specified sub-range; bounds-check
  \<^verbatim>\<open>[offset, offset+length]\<close> within \<^verbatim>\<open>[0, size]\<close>'', failing with a bounds violation
  or an OS error. The flush is an \<^verbatim>\<open>msync\<close> of the pages that hold the sub-range; an
  object without a view has nothing to flush.\<close>

definition ResizableMappedFile_sync ::
  "nat \<Rightarrow> nat \<Rightarrow> ResizableMappedFile \<Rightarrow> world \<Rightarrow> error option \<times> world" where
  "ResizableMappedFile_sync offset len r w =
     (if offset + len > ResizableMappedFile_size r then (Some bounds_violation, w)
      else (case rmf_mapped r of
              None \<Rightarrow> (None, w)
            | Some m \<Rightarrow>
                (case os_msync (page_floor (pageSize w) (mm_address m + offset))
                        (len + (mm_address m + offset) mod pageSize w) w of
                   (False, w') \<Rightarrow> (Some mapping_error, w')
                 | (True, w') \<Rightarrow> (None, w'))))"

section \<open>Programs that use the library\<close>

text \<open>A host the library can run on: a positive page size, the null page never handed
  out, page-aligned placement, and 64-bit addresses.\<close>

definition os_ok :: "world \<Rightarrow> bool" where
  "os_ok w =
     (0 < w_pagesize w \<and> w_pagesize w \<le> w_brk w \<and> w_brk w mod w_pagesize w = 0 \<and>
      w_brk w \<le> w_top w \<and> w_top w \<le> 2 ^ 64)"

text \<open>What a caller does with a resizable object between construction and drop: it
  calls \<^verbatim>\<open>resize\<close> and it stores bytes through pointers. A \<^verbatim>\<open>resize\<close> that throws
  leaves the object to be used further; a faulting store or \<^verbatim>\<open>std::terminate\<close> ends
  the program (\<open>None\<close>).\<close>

datatype action = Resize nat | Store nat byte

fun run_memory ::
  "action list \<Rightarrow> ResizableMappedMemory \<Rightarrow> world \<Rightarrow> (ResizableMappedMemory \<times> world) option" where
  "run_memory [] r w = Some (r, w)"
| "run_memory (Resize n # acts) r w =
     (case ResizableMappedMemory_resize n r w of
        (Some terminated, r', w') \<Rightarrow> None
      | (e, r', w') \<Rightarrow> run_memory acts r' w')"
| "run_memory (Store x b # acts) r w =
     (case poke x b w of None \<Rightarrow> None | Some w' \<Rightarrow> run_memory acts r w')"

fun run_file ::
  "action list \<Rightarrow> ResizableMappedFile \<Rightarrow> world \<Rightarrow> (ResizableMappedFile \<times> world) option" where
  "run_file [] r w = Some (r, w)"
| "run_file (Resize n # acts) r w =
     (case ResizableMappedFile_resize n r w of
        (Some terminated, r', w') \<Rightarrow> None
      | (e, r', w') \<Rightarrow> run_file acts r' w')"
| "run_file (Store x b # acts) r w =
     (case poke x b w of None \<Rightarrow> None | Some w' \<Rightarrow> run_file acts r w')"

text \<open>Construction followed by a run.\<close>

definition memory_session ::
  "nat \<Rightarrow> nat \<Rightarrow> action list \<Rightarrow> world \<Rightarrow> (ResizableMappedMemory \<times> world) option" where
  "memory_session initialSize maxSize acts w =
     (case ResizableMappedMemory_ctor initialSize maxSize w of
        (Inl e, w') \<Rightarrow> None
      | (Inr r, w') \<Rightarrow> run_memory acts r w')"

definition file_session ::
  "string \<Rightarrow> nat \<Rightarrow> action list \<Rightarrow> world \<Rightarrow> (ResizableMappedFile \<times> world) option" where
  "file_session path maxSize acts w =
     (case ResizableMappedFile_ctor path maxSize w of
        (Inl e, w') \<Rightarrow> None
      | (Inr r, w') \<Rightarrow> run_file acts r w')"

text \<open>A run in which no \<^verbatim>\<open>resize\<close> fails in a system call (each one returns, or throws
  \<^verbatim>\<open>std::bad_alloc\<close> before it has done anything) and no store faults.\<close>

fun resizes_clean :: "action list \<Rightarrow> ResizableMappedMemory \<Rightarrow> world \<Rightarrow> bool" where
  "resizes_clean [] r w = True"
| "resizes_clean (Resize n # acts) r w =
     (case ResizableMappedMemory_resize n r w of
        (None, r', w') \<Rightarrow> resizes_clean acts r' w'
      | (Some bad_alloc, r', w') \<Rightarrow> resizes_clean acts r' w'
      | (Some e, r', w') \<Rightarrow> False)"
| "resizes_clean (Store x b # acts) r w =
     (case poke x b w of None \<Rightarrow> False | Some w' \<Rightarrow> resizes_clean acts r w')"

definition session_clean :: "nat \<Rightarrow> nat \<Rightarrow> action list \<Rightarrow> world \<Rightarrow> bool" where
  "session_clean initialSize maxSize acts w =
     (case ResizableMappedMemory_ctor initialSize maxSize w of
        (Inl e, w') \<Rightarrow> False
      | (Inr r, w') \<Rightarrow> resizes_clean acts r w')"

text \<open>Storing a sequence of bytes from an address on, as \<^verbatim>\<open>*static_cast<int*>(p) = v\<close>
  or a copy does.\<close>

fun store_bytes :: "nat \<Rightarrow> byte list \<Rightarrow> world \<Rightarrow> world option" where
  "store_bytes x [] w = Some w"
| "store_bytes x (b # bs) w =
     (case poke x b w of None \<Rightarrow> None | Some w' \<Rightarrow> store_bytes (Suc x) bs w')"

text \<open>The test \<^verbatim>\<open>TEST_F(MappedFileFixture, Writable)\<close>: map the file writable, store
  the bytes at \<^verbatim>\<open>data()\<close>, drop the mapping, read the file again. The result is the
  contents of the file at the end, \<open>None\<close> if a step failed.\<close>

definition Writable_test :: "string \<Rightarrow> byte list \<Rightarrow> world \<Rightarrow> byte list option" where
  "Writable_test path bs w =
     (case MappedFile_open True path w of
        (Inl e, w1) \<Rightarrow> None
      | (Inr mapped, w1) \<Rightarrow>
          (case store_bytes (MappedFile_data mapped) bs w1 of
             None \<Rightarrow> None
           | Some w2 \<Rightarrow>
               (case MappedFile_dtor mapped w2 of
                  (Some e, w3) \<Rightarrow> None
                | (None, w3) \<Rightarrow> w_files w3 path)))"

text \<open>The same test with the mapping made \<^verbatim>\<open>MAP_SHARED\<close> by the caller.\<close>

definition Writable_test_shared :: "string \<Rightarrow> byte list \<Rightarrow> world \<Rightarrow> byte list option" where
  "Writable_test_shared path bs w =
     (case MappedFile_ctor True path {MAP_SHARED} w of
        (Inl e, w1) \<Rightarrow> None
      | (Inr mapped, w1) \<Rightarrow>
          (case store_bytes (MappedFile_data mapped) bs w1 of
             None \<Rightarrow> None
           | Some w2 \<Rightarrow>
               (case MappedFile_dtor mapped w2 of
                  (Some e, w3) \<Rightarrow> None
                | (None, w3) \<Rightarrow> w_files w3 path)))"

text \<open>The hosts of the examples: a page size of 4096, a 47-bit address space, no
  mapping yet, no pending failure. \<open>world0\<close> has no file; \<open>world_test\<close> has the
  fixture's \<^verbatim>\<open>test.dat\<close>, the \<^verbatim>\<open>int\<close> 42 in little-endian bytes; \<open>world_t2\<close> has a file
  of 1500 zero bytes; \<open>world_empty\<close> has an empty file.\<close>

definition world0 :: world where
  "world0 = \<lparr>w_pagesize = 4096, w_top = 2 ^ 47, w_brk = 65536, w_pages = (\<lambda>p. None),
              w_mem = (\<lambda>x. 0), w_files = (\<lambda>f. None), w_dirty = (\<lambda>f k. False),
              w_faults = []\<rparr>"

definition world_test :: world where
  "world_test = world0\<lparr>w_files := (\<lambda>f. if f = ''test.dat'' then Some [42, 0, 0, 0] else None)\<rparr>"

definition world_t2 :: world where
  "world_t2 = world0\<lparr>w_files := (\<lambda>f. if f = ''t2'' then Some (replicate 1500 0) else None)\<rparr>"

definition world_empty :: world where
  "world_empty = world0\<lparr>w_files := (\<lambda>f. if f = ''empty.dat'' then Some [] else None)\<rparr>"

text \<open>Two objects as the constructors leave them on \<open>world0\<close>: a resizable file of
  capacity 1500 on the new file \<^verbatim>\<open>t2\<close>, and an anonymous region of capacity 10000 and
  initial size 0.\<close>

definition rf_t2 :: ResizableMappedFile where
  "rf_t2 = \<lparr>rmf_reserved = \<lparr>mm_prot = {}, mm_size = 1500, mm_address = 65536, mm_fixed = False\<rparr>,
             rmf_file = \<lparr>fd_path = ''t2'', fd_rdwr = True\<rparr>, rmf_mapped = None\<rparr>"

definition rm_10000 :: ResizableMappedMemory where
  "rm_10000 = \<lparr>rmm_reserved = \<lparr>mm_prot = {}, mm_size = 10000, mm_address = 65536, mm_fixed = False\<rparr>,
                rmm_size = 0, rmm_mappedSize = 0\<rparr>"

section \<open>Invariants of the objects\<close>

text \<open>The reservation lies at a page-aligned, non-null address, inside the 64-bit
  address range, and was not placed with \<^verbatim>\<open>MAP_FIXED\<close>.\<close>

definition reservation_ok :: "nat \<Rightarrow> MemoryMap \<Rightarrow> bool" where
  "reservation_ok ps m =
     (0 < ps \<and> ps \<le> mm_address m \<and> mm_address m mod ps = 0 \<and>
      mm_address m + page_ceil ps (mm_size m) \<le> 2 ^ 64 \<and> \<not> mm_fixed m)"

text \<open>An anonymous region: the size is within the capacity and the committed length
  is the size rounded up to a page.\<close>

definition rmm_inv :: "nat \<Rightarrow> ResizableMappedMemory \<Rightarrow> bool" where
  "rmm_inv ps r =
     (reservation_ok ps (rmm_reserved r) \<and> rmm_size r \<le> mm_size (rmm_reserved r) \<and>
      rmm_mappedSize r = page_ceil ps (rmm_size r))"

text \<open>A resizable file: the view, when there is one, starts at the base of the
  reservation, is not empty, fits the capacity and was placed with \<^verbatim>\<open>MAP_FIXED\<close>.\<close>

definition rmf_inv :: "nat \<Rightarrow> ResizableMappedFile \<Rightarrow> bool" where
  "rmf_inv ps r =
     (reservation_ok ps (rmf_reserved r) \<and>
      (case rmf_mapped r of
         None \<Rightarrow> True
       | Some m \<Rightarrow> mm_address m = mm_address (rmf_reserved r) \<and> 0 < mm_size m \<and>
                   mm_size m \<le> mm_size (rmf_reserved r) \<and> mm_fixed m \<and>
                   mm_prot m = {PROT_READ, PROT_WRITE}))"

text \<open>The pages of the view map the file, shared and writable, page by page.\<close>

definition view_ok :: "world \<Rightarrow> ResizableMappedFile \<Rightarrow> bool" where
  "view_ok w r =
     (case rmf_mapped r of
        None \<Rightarrow> True
      | Some m \<Rightarrow>
          (\<forall>p. in_range (mm_address m div w_pagesize w) (page_count w (mm_size m)) p \<longrightarrow>
               w_pages w p =
                 Some \<lparr>pg_prot = {PROT_READ, PROT_WRITE},
                       pg_back = Shared (fd_path (rmf_file r))
                                   ((p - mm_address m div w_pagesize w) * w_pagesize w)\<rparr>))"

text \<open>The committed length of an anonymous region as the page table has it: the pages
  of the reservation below \<open>base + mappedSize\<close> are readable and writable, the others
  are inaccessible, and all of them are anonymous.\<close>

definition commit_ok :: "world \<Rightarrow> ResizableMappedMemory \<Rightarrow> bool" where
  "commit_ok w r =
     (let ps = w_pagesize w; first = mm_address (rmm_reserved r) div ps
      in list_all
           (\<lambda>p. w_pages w p =
                  Some \<lparr>pg_prot = (if p < first + rmm_mappedSize r div ps
                                   then {PROT_READ, PROT_WRITE} else {}),
                        pg_back = Anon\<rparr>)
           [first ..< first + page_count w (mm_size (rmm_reserved r))])"

section \<open>Page arithmetic\<close>

lemma page_ceil_ge: "0 < ps \<Longrightarrow> n \<le> page_ceil ps n"
proof -
  assume ps: "0 < ps"
  have "n + ps - 1 = (n + ps - 1) div ps * ps + (n + ps - 1) mod ps" by simp
  moreover have "(n + ps - 1) mod ps < ps" using ps by simp
  ultimately have "n + ps - 1 < (n + ps - 1) div ps * ps + ps" by linarith
  then show ?thesis using ps by (simp add: page_ceil_def)
qed

lemma page_ceil_mod: "page_ceil ps n mod ps = 0"
  by (simp add: page_ceil_def)

lemma page_ceil_mono: "a \<le> b \<Longrightarrow> page_ceil ps a \<le> page_ceil ps b"
  by (simp add: page_ceil_def div_le_mono)

lemma page_ceil_less: "0 < ps \<Longrightarrow> page_ceil ps n < n + ps"
proof -
  assume ps: "0 < ps"
  have "(n + ps - 1) div ps * ps \<le> n + ps - 1" by simp
  moreover have "n + ps - 1 < n + ps" using ps by simp
  ultimately have "(n + ps - 1) div ps * ps < n + ps" by (rule le_less_trans)
  then show ?thesis by (simp only: page_ceil_def)
qed

lemma page_ceil_zero: "0 < ps \<Longrightarrow> page_ceil ps 0 = 0"
  by (simp add: page_ceil_def)

lemma page_ceil_dvd: "0 < ps \<Longrightarrow> n mod ps = 0 \<Longrightarrow> page_ceil ps n = n"
proof -
  assume ps: "0 < ps" and d: "n mod ps = 0"
  then have "ps dvd n" by (simp add: mod_eq_0_iff_dvd)
  then have "n div ps * ps = n" by (rule dvd_div_mult_self)
  then obtain q where n: "n = q * ps" by metis
  have e: "q * ps + ps - 1 = q * ps + (ps - 1)" using ps by simp
  have "(q * ps + ps - 1) div ps = (q * ps + (ps - 1)) div ps" by (simp only: e)
  also have "\<dots> = q + (ps - 1) div ps" by (rule div_mult_self3) (use ps in simp)
  also have "\<dots> = q" using ps by simp
  finally have "(q * ps + ps - 1) div ps = q" .
  then show ?thesis by (simp add: page_ceil_def n)
qed

lemma newMappedSize_eq:
  assumes "0 < ps" "sz \<le> cap" "ps + page_ceil ps cap \<le> 2 ^ 64"
  shows "newMappedSize ps sz = page_ceil ps sz"
proof -
  have c: "cap \<le> page_ceil ps cap" using assms(1) by (rule page_ceil_ge)
  have lt: "sz + ps - 1 < 2 ^ 64" using assms c by linarith
  have "sz + ps + (2 ^ 64 - 1) = (sz + ps - 1) + 2 ^ 64" using assms(1) by simp
  then have "(sz + ps + (2 ^ 64 - 1)) mod 2 ^ 64 = (sz + ps - 1) mod 2 ^ 64"
    by (metis mod_add_self2)
  then have a: "(sz + ps + (2 ^ 64 - 1)) mod 2 ^ 64 = sz + ps - 1" using lt by simp
  have "page_ceil ps sz \<le> page_ceil ps cap" using assms(2) by (rule page_ceil_mono)
  then have b: "page_ceil ps sz < 2 ^ 64" using assms by linarith
  show ?thesis unfolding newMappedSize_def a using b by (simp add: page_ceil_def)
qed

lemma div_less_aligned:
  assumes "0 < ps" and "b mod ps = 0" and "(x::nat) < b"
  shows "x div ps < b div ps"
proof -
  have "ps dvd b" using assms(2) by (simp add: mod_eq_0_iff_dvd)
  then have "b div ps * ps = b" by (rule dvd_div_mult_self)
  then have "x < b div ps * ps" using assms(3) by simp
  then show ?thesis using assms(1) by (simp add: div_less_iff_less_mult)
qed

lemma page_index:
  assumes "0 < ps" and "base mod ps = 0"
  shows "(base + k) div ps = base div ps + k div (ps::nat)"
proof -
  have "ps dvd base" using assms(2) by (simp add: mod_eq_0_iff_dvd)
  then have b: "base div ps * ps = base" by (rule dvd_div_mult_self)
  have "(base div ps * ps + k) div ps = base div ps + k div ps"
    by (rule div_mult_self3) (use assms(1) in simp)
  then show ?thesis by (simp only: b)
qed

lemma page_offset:
  assumes "base mod ps = 0"
  shows "(base + k) mod ps = k mod (ps::nat)"
  using assms by (metis add.left_neutral mod_add_left_eq)

lemma flush_range_upper:
  assumes "0 < ps" and "k < offset + len"
  shows "k div ps < offset div ps + (len + offset mod ps + ps - 1) div (ps::nat)"
proof -
  let ?t = "len + offset mod ps"
  have "?t \<le> page_ceil ps ?t" using assms(1) by (rule page_ceil_ge)
  then have t: "?t \<le> (?t + ps - 1) div ps * ps" by (simp only: page_ceil_def)
  have "offset = offset div ps * ps + offset mod ps" by simp
  then have "offset + len = offset div ps * ps + ?t" by linarith
  then have "k < offset div ps * ps + (?t + ps - 1) div ps * ps" using assms(2) t by linarith
  then have "k < (offset div ps + (?t + ps - 1) div ps) * ps" by (simp add: add_mult_distrib)
  then show ?thesis using assms(1) by (simp add: div_less_iff_less_mult)
qed

lemma view_bound:
  assumes "0 < ps" and "offset + len \<le> sz"
  shows "offset div ps + (len + offset mod ps + ps - 1) div ps \<le> (sz + ps - 1) div (ps::nat)"
proof -
  have "(offset div ps * ps + (len + offset mod ps + ps - 1)) div ps =
          offset div ps + (len + offset mod ps + ps - 1) div ps"
    by (rule div_mult_self3) (use assms(1) in simp)
  moreover have "offset div ps * ps + (len + offset mod ps + ps - 1) = offset + len + ps - 1"
  proof -
    have "offset = offset div ps * ps + offset mod ps" by simp
    then show ?thesis using assms(1) by linarith
  qed
  ultimately have "offset div ps + (len + offset mod ps + ps - 1) div ps = (offset + len + ps - 1) div ps"
    by simp
  moreover have "(offset + len + ps - 1) div ps \<le> (sz + ps - 1) div ps"
    using assms(2) by (intro div_le_mono) simp
  ultimately show ?thesis by simp
qed


section \<open>The system calls: what they leave alone, what they establish\<close>

lemma take_fault_frame:
  "take_fault w = (f, w') \<Longrightarrow>
     w_pagesize w' = w_pagesize w \<and> w_top w' = w_top w \<and> w_brk w' = w_brk w \<and>
     w_pages w' = w_pages w \<and> w_mem w' = w_mem w \<and> w_files w' = w_files w \<and>
     w_dirty w' = w_dirty w"
  by (auto simp: take_fault_def split: list.splits)

lemma take_fault_none: "w_faults w = [] \<Longrightarrow> take_fault w = (False, w)"
  by (simp add: take_fault_def)

lemma os_mmap_frame:
  "os_mmap addr len prot flags fd off w = (res, w') \<Longrightarrow>
     w_pagesize w' = w_pagesize w \<and> w_top w' = w_top w \<and> w_files w' = w_files w \<and>
     w_dirty w' = w_dirty w"
  by (auto simp: os_mmap_def Let_def split: prod.splits if_splits dest: take_fault_frame)

lemma os_munmap_frame:
  "os_munmap addr len w = (res, w') \<Longrightarrow>
     w_pagesize w' = w_pagesize w \<and> w_top w' = w_top w \<and> w_brk w' = w_brk w \<and>
     w_mem w' = w_mem w \<and> w_files w' = w_files w \<and> w_dirty w' = w_dirty w"
  by (auto simp: os_munmap_def Let_def split: prod.splits if_splits dest: take_fault_frame)

lemma os_mprotect_frame:
  "os_mprotect addr len prot w = (res, w') \<Longrightarrow>
     w_pagesize w' = w_pagesize w \<and> w_top w' = w_top w \<and> w_brk w' = w_brk w \<and>
     w_mem w' = w_mem w \<and> w_files w' = w_files w \<and> w_dirty w' = w_dirty w"
  by (auto simp: os_mprotect_def Let_def split: prod.splits if_splits dest: take_fault_frame)

lemma os_madvise_dontneed_frame:
  "os_madvise_dontneed addr len w = (res, w') \<Longrightarrow>
     w_pagesize w' = w_pagesize w \<and> w_top w' = w_top w \<and> w_brk w' = w_brk w \<and>
     w_pages w' = w_pages w \<and> w_files w' = w_files w \<and> w_dirty w' = w_dirty w"
  by (auto simp: os_madvise_dontneed_def Let_def split: prod.splits if_splits dest: take_fault_frame)

lemma os_msync_frame:
  "os_msync addr len w = (res, w') \<Longrightarrow>
     w_pagesize w' = w_pagesize w \<and> w_top w' = w_top w \<and> w_brk w' = w_brk w \<and>
     w_pages w' = w_pages w \<and> w_mem w' = w_mem w \<and> w_files w' = w_files w"
  by (auto simp: os_msync_def Let_def split: prod.splits if_splits dest: take_fault_frame)

lemma os_open_frame:
  "os_open path flags w = (res, w') \<Longrightarrow>
     w_pagesize w' = w_pagesize w \<and> w_top w' = w_top w \<and> w_brk w' = w_brk w \<and>
     w_pages w' = w_pages w \<and> w_mem w' = w_mem w \<and> w_dirty w' = w_dirty w"
  by (auto simp: os_open_def Let_def split: prod.splits if_splits option.splits dest: take_fault_frame)

lemma os_fstat_size_frame:
  "os_fstat_size fd w = (res, w') \<Longrightarrow>
     w_pagesize w' = w_pagesize w \<and> w_top w' = w_top w \<and> w_brk w' = w_brk w \<and>
     w_pages w' = w_pages w \<and> w_mem w' = w_mem w \<and> w_files w' = w_files w \<and>
     w_dirty w' = w_dirty w"
  by (auto simp: os_fstat_size_def Let_def split: prod.splits if_splits dest: take_fault_frame)

lemma os_ftruncate_frame:
  "os_ftruncate fd n w = (res, w') \<Longrightarrow>
     w_pagesize w' = w_pagesize w \<and> w_top w' = w_top w \<and> w_brk w' = w_brk w \<and>
     w_pages w' = w_pages w \<and> w_mem w' = w_mem w \<and> w_dirty w' = w_dirty w"
  by (auto simp: os_ftruncate_def Let_def split: prod.splits if_splits option.splits dest: take_fault_frame)

lemma poke_frame:
  "poke x b w = Some w' \<Longrightarrow>
     w_pagesize w' = w_pagesize w \<and> w_top w' = w_top w \<and> w_brk w' = w_brk w \<and>
     w_pages w' = w_pages w \<and> w_faults w' = w_faults w"
  by (auto simp: poke_def Let_def split: option.splits if_splits backing.splits)

lemma os_ok_cong:
  "os_ok w \<Longrightarrow> w_pagesize w' = w_pagesize w \<Longrightarrow> w_top w' = w_top w \<Longrightarrow> w_brk w' = w_brk w
     \<Longrightarrow> os_ok w'"
  by (simp add: os_ok_def)

lemma os_mmap_fresh:
  assumes "os_mmap addr len prot flags fd off w = (Some a, w')"
    and "MAP_FIXED \<notin> flags" "MAP_FIXED_NOREPLACE \<notin> flags"
  shows "a = w_brk w \<and> 0 < len \<and> a + page_ceil (w_pagesize w) len \<le> w_top w \<and>
         w_brk w' = w_brk w + page_ceil (w_pagesize w) len"
  using assms
  by (auto simp: os_mmap_def Let_def split: prod.splits if_splits dest!: take_fault_frame)

lemma os_mmap_fixed:
  assumes "os_mmap addr len prot flags fd off w = (Some a, w')" and "MAP_FIXED \<in> flags"
  shows "a = addr \<and> 0 < len \<and> w_brk w' = w_brk w"
  using assms
  by (auto simp: os_mmap_def Let_def split: prod.splits if_splits dest!: take_fault_frame)

lemma os_mmap_ok:
  assumes "os_ok w" and "os_mmap addr len prot flags fd off w = (res, w')"
  shows "os_ok w'"
proof -
  have f: "w_pagesize w' = w_pagesize w \<and> w_top w' = w_top w"
    using assms(2) by (auto dest!: os_mmap_frame)
  have "w_brk w' = w_brk w \<or>
        (w_brk w' = w_brk w + page_ceil (w_pagesize w) len \<and>
         w_brk w + page_ceil (w_pagesize w) len \<le> w_top w)"
    using assms(2)
    by (auto simp: os_mmap_def Let_def split: prod.splits if_splits dest!: take_fault_frame)
  then show ?thesis
    using assms(1) f by (auto simp: os_ok_def page_ceil_mod mod_add_eq[symmetric] trans_le_add1)
qed

lemma os_mmap_pages_mapped:
  assumes "os_mmap addr len prot flags fd off w = (Some a, w')"
  shows "pages_mapped w' a len"
  using assms
  by (auto simp: os_mmap_def Let_def pages_mapped_def first_page_def page_count_def list_all_iff
                 in_range_def
           split: prod.splits if_splits dest!: take_fault_frame)

lemma os_mmap_shared_pages:
  assumes "os_mmap addr len prot {MAP_FIXED, MAP_SHARED} (Some fd) 0 w = (Some a, w')"
    and "in_range (a div w_pagesize w) (page_count w len) p"
  shows "w_pages w' p =
           Some \<lparr>pg_prot = prot, pg_back = Shared (fd_path fd) ((p - a div w_pagesize w) * w_pagesize w)\<rparr>"
  using assms
  by (auto simp: os_mmap_def Let_def page_count_def split: prod.splits if_splits
           dest!: take_fault_frame)

lemma os_ftruncate_length:
  "os_ftruncate fd n w = (True, w') \<Longrightarrow> map_option length (w_files w' (fd_path fd)) = Some n"
  by (auto simp: os_ftruncate_def Let_def split: prod.splits if_splits option.splits
           dest: take_fault_frame)

lemma os_mprotect_below:
  assumes "os_mprotect addr len prot w = (res, w')" and "q < addr div w_pagesize w"
  shows "w_pages w' q = w_pages w q"
  using assms
  by (auto simp: os_mprotect_def Let_def in_range_def split: prod.splits if_splits
           dest!: take_fault_frame)

lemma os_madvise_dontneed_below:
  assumes "os_madvise_dontneed addr len w = (res, w')" and "x div w_pagesize w < addr div w_pagesize w"
  shows "w_mem w' x = w_mem w x"
  using assms
  by (auto simp: os_madvise_dontneed_def Let_def in_range_def split: prod.splits if_splits
           dest!: take_fault_frame)

lemma peek_cong:
  assumes "w_pagesize w' = w_pagesize w" and "w_pages w' (x div w_pagesize w) = w_pages w (x div w_pagesize w)"
    and "w_mem w' x = w_mem w x" and "w_files w' = w_files w"
  shows "peek w' x = peek w x"
  using assms by (auto simp: peek_def split: option.splits backing.splits)

lemma page_holds_cong:
  "w_pages w1 = w_pages w \<Longrightarrow> w_pagesize w1 = w_pagesize w \<Longrightarrow>
     page_holds w1 p f k = page_holds w p f k"
  by (auto simp: page_holds_def split: option.splits backing.splits)

lemma os_msync_clean:
  assumes ms: "os_msync addr len w = (True, w')"
    and lo: "addr div w_pagesize w \<le> p" and hi: "p < addr div w_pagesize w + page_count w len"
    and h: "page_holds w p f k"
  shows "\<not> w_dirty w' f k"
proof -
  obtain fl w1 where tf: "take_fault w = (fl, w1)" by (cases "take_fault w") auto
  have f: "w_pages w1 = w_pages w" "w_pagesize w1 = w_pagesize w"
    using take_fault_frame[OF tf] by simp_all
  let ?w2 = "w1\<lparr>w_dirty := (\<lambda>f k. w_dirty w1 f k \<and>
                 \<not> list_ex (\<lambda>p. page_holds w1 p f k)
                     [addr div w_pagesize w1 ..< addr div w_pagesize w1 + page_count w1 len])\<rparr>"
  have eq: "os_msync addr len w =
              (if fl \<or> addr mod w_pagesize w1 \<noteq> 0 \<or> \<not> pages_mapped w1 addr len
               then (False, w1) else (True, ?w2))"
    by (simp only: os_msync_def tf Let_def prod.case)
  have w': "w' = ?w2"
  proof (cases "fl \<or> addr mod w_pagesize w1 \<noteq> 0 \<or> \<not> pages_mapped w1 addr len")
    case True
    then have "os_msync addr len w = (False, w1)" by (simp only: eq if_True)
    then show ?thesis using ms by simp
  next
    case False
    then have "os_msync addr len w = (True, ?w2)" by (simp only: eq if_False)
    then show ?thesis using ms by simp
  qed
  have pc: "page_count w1 len = page_count w len" using f by (simp add: page_count_def)
  have "page_holds w1 p f k = page_holds w p f k" using f by (rule page_holds_cong)
  then have "page_holds w1 p f k" using h by simp
  moreover have "p \<in> set [addr div w_pagesize w1 ..< addr div w_pagesize w1 + page_count w1 len]"
    using lo hi f pc by simp
  ultimately have "list_ex (\<lambda>p. page_holds w1 p f k)
               [addr div w_pagesize w1 ..< addr div w_pagesize w1 + page_count w1 len]"
    unfolding list_ex_iff by blast
  then have "\<not> w_dirty ?w2 f k" by simp
  then show ?thesis unfolding w' .
qed


section \<open>Descriptors and mappings\<close>

lemma MemoryMap_ctor_files:
  "MemoryMap_ctor prot addr len flags fd off w = (res, w') \<Longrightarrow> w_files w' = w_files w"
  by (auto simp: MemoryMap_ctor_def split: prod.splits option.splits dest!: os_mmap_frame)

lemma MemoryMap_sync_files:
  "MemoryMap_sync m w = (res, w') \<Longrightarrow> w_files w' = w_files w"
  by (auto simp: MemoryMap_sync_def split: prod.splits bool.splits dest!: os_msync_frame)

lemma MemoryMap_unmap_files:
  "MemoryMap_unmap m w = (res, w') \<Longrightarrow> w_files w' = w_files w"
  by (auto simp: MemoryMap_unmap_def
           split: prod.splits option.splits if_splits bool.splits
           dest!: os_mmap_frame os_munmap_frame MemoryMap_sync_files)

lemma MemoryMap_dtor_files:
  "MemoryMap_dtor m w = (res, w') \<Longrightarrow> w_files w' = w_files w"
  by (auto simp: MemoryMap_dtor_def split: prod.splits option.splits dest!: MemoryMap_unmap_files)

lemma MemoryMap_ctor_frame:
  "MemoryMap_ctor prot addr len flags fd off w = (res, w') \<Longrightarrow>
     w_pagesize w' = w_pagesize w \<and> w_top w' = w_top w \<and> w_files w' = w_files w \<and>
     w_dirty w' = w_dirty w"
  by (auto simp: MemoryMap_ctor_def split: prod.splits option.splits dest!: os_mmap_frame)

lemma MemoryMap_dtor_frame:
  "MemoryMap_dtor m w = (res, w') \<Longrightarrow>
     w_pagesize w' = w_pagesize w \<and> w_top w' = w_top w \<and> w_files w' = w_files w"
  by (auto simp: MemoryMap_dtor_def MemoryMap_unmap_def MemoryMap_sync_def
           split: prod.splits option.splits if_splits bool.splits
           dest!: os_mmap_frame os_munmap_frame os_msync_frame)

lemma FileDescriptor_truncate_length:
  "FileDescriptor_truncate fd n w = (None, w') \<Longrightarrow>
     map_option length (w_files w' (fd_path fd)) = Some n"
  by (auto simp: FileDescriptor_truncate_def split: prod.splits bool.splits
           dest!: os_ftruncate_length)

lemma FileDescriptor_truncate_frame:
  "FileDescriptor_truncate fd n w = (res, w') \<Longrightarrow>
     w_pagesize w' = w_pagesize w \<and> w_top w' = w_top w \<and> w_brk w' = w_brk w \<and>
     w_pages w' = w_pages w \<and> w_mem w' = w_mem w \<and> w_dirty w' = w_dirty w"
  by (auto simp: FileDescriptor_truncate_def split: prod.splits bool.splits
           dest!: os_ftruncate_frame)

lemma FileDescriptor_size_frame:
  "FileDescriptor_size fd w = (res, w') \<Longrightarrow>
     w_pagesize w' = w_pagesize w \<and> w_top w' = w_top w \<and> w_brk w' = w_brk w \<and>
     w_pages w' = w_pages w \<and> w_mem w' = w_mem w \<and> w_files w' = w_files w \<and>
     w_dirty w' = w_dirty w"
  by (auto simp: FileDescriptor_size_def split: prod.splits option.splits
           dest!: os_fstat_size_frame)

lemma FileDescriptor_ctor_frame:
  "FileDescriptor_ctor path flags w = (res, w') \<Longrightarrow>
     w_pagesize w' = w_pagesize w \<and> w_top w' = w_top w \<and> w_brk w' = w_brk w \<and>
     w_pages w' = w_pages w \<and> w_mem w' = w_mem w \<and> w_dirty w' = w_dirty w"
  by (auto simp: FileDescriptor_ctor_def split: prod.splits option.splits
           dest!: os_open_frame)

lemma FileDescriptor_ctor_existing:
  assumes "w_files w path = Some bs" and "FileDescriptor_ctor path flags w = (res, w')"
  shows "w_files w' = w_files w \<and> (\<forall>fd. res = Inr fd \<longrightarrow> fd_path fd = path)"
  using assms
  by (auto simp: FileDescriptor_ctor_def os_open_def Let_def
           split: prod.splits option.splits if_splits dest!: take_fault_frame)

lemma FileDescriptor_size_value:
  assumes "FileDescriptor_size fd w = (Inr n, w')"
  shows "map_option length (w_files w (fd_path fd)) = Some n \<and> w_files w' = w_files w"
  using assms
  by (auto simp: FileDescriptor_size_def os_fstat_size_def Let_def
           split: prod.splits option.splits if_splits dest!: take_fault_frame)

lemma reserve_ok:
  assumes "os_ok w"
    and "MemoryMap_ctor {} 0 cap {MAP_PRIVATE, MAP_ANONYMOUS, MAP_NORESERVE} None 0 w = (Inr m, w')"
  shows "reservation_ok (w_pagesize w) m \<and> mm_size m = cap \<and> 0 < cap \<and> os_ok w' \<and>
         w_pagesize w' = w_pagesize w \<and> w_files w' = w_files w"
proof -
  obtain a where mm: "os_mmap 0 cap {} {MAP_PRIVATE, MAP_ANONYMOUS, MAP_NORESERVE} None 0 w = (Some a, w')"
    and m: "m = \<lparr>mm_prot = {}, mm_size = cap, mm_address = a, mm_fixed = False\<rparr>"
    using assms(2) by (auto simp: MemoryMap_ctor_def split: prod.splits option.splits)
  have fr: "a = w_brk w \<and> 0 < cap \<and> a + page_ceil (w_pagesize w) cap \<le> w_top w"
    using os_mmap_fresh[OF mm] by simp
  have ok': "os_ok w'" using assms(1) mm by (rule os_mmap_ok)
  have f: "w_pagesize w' = w_pagesize w \<and> w_files w' = w_files w"
    using mm by (auto dest!: os_mmap_frame)
  show ?thesis using fr ok' f assms(1) by (auto simp: m reservation_ok_def os_ok_def)
qed

lemma unwind_reserved_files:
  assumes "unwind_reserved m e w = (res, w')"
  shows "isl res \<and> w_files w' = w_files w"
  using assms
  by (auto simp: unwind_reserved_def split: prod.splits option.splits dest!: MemoryMap_dtor_files)


section \<open>Whole-file mappings\<close>

lemma MappedFile_ctor_success:
  assumes "MappedFile_ctor Writable path flags w = (Inr f, w')"
  shows "(\<exists>bs. w_files w path = Some bs \<and> MappedFile_size f = length bs) \<and>
         0 < MappedFile_size f \<and>
         (os_ok w \<and> MAP_FIXED \<notin> flags \<and> MAP_FIXED_NOREPLACE \<notin> flags \<longrightarrow> MappedFile_data f \<noteq> 0)"
proof -
  obtain fd w1 where o: "FileDescriptor_ctor path {if Writable then O_RDWR else O_RDONLY} w = (Inr fd, w1)"
    using assms by (auto simp: MappedFile_ctor_def split: prod.splits sum.splits)
  obtain n w2 where s: "FileDescriptor_size fd w1 = (Inr n, w2)"
    using assms o by (auto simp: MappedFile_ctor_def split: prod.splits sum.splits)
  obtain m where c: "MemoryMap_ctor (if Writable then {PROT_READ, PROT_WRITE} else {PROT_READ})
                       0 n flags (Some fd) 0 w2 = (Inr m, w')"
    and f: "f = \<lparr>mf_file = fd, mf_mapped = m\<rparr>"
    using assms o s by (auto simp: MappedFile_ctor_def split: prod.splits sum.splits)
  obtain bs where bs: "w_files w path = Some bs" and p: "fd_path fd = path"
    and f1: "w_files w1 = w_files w" and b1: "w_brk w1 = w_brk w \<and> w_pagesize w1 = w_pagesize w"
    using o
    by (auto simp: FileDescriptor_ctor_def os_open_def Let_def
             split: prod.splits option.splits if_splits dest!: take_fault_frame)
  have n: "n = length bs" using FileDescriptor_size_value[OF s] p f1 bs by simp
  have b2: "w_brk w2 = w_brk w \<and> w_pagesize w2 = w_pagesize w"
    using s b1 by (auto dest!: FileDescriptor_size_frame)
  obtain a where mm: "os_mmap 0 n (if Writable then {PROT_READ, PROT_WRITE} else {PROT_READ})
                        flags (Some fd) 0 w2 = (Some a, w')"
    and m: "mm_address m = a \<and> mm_size m = n"
    using c by (auto simp: MemoryMap_ctor_def split: prod.splits option.splits)
  have pos: "0 < n"
    using mm by (auto simp: os_mmap_def Let_def split: prod.splits if_splits)
  have "os_ok w \<and> MAP_FIXED \<notin> flags \<and> MAP_FIXED_NOREPLACE \<notin> flags \<longrightarrow> a \<noteq> 0"
  proof
    assume h: "os_ok w \<and> MAP_FIXED \<notin> flags \<and> MAP_FIXED_NOREPLACE \<notin> flags"
    then have "a = w_brk w2" using os_mmap_fresh[OF mm] by simp
    then show "a \<noteq> 0" using h b2 by (auto simp: os_ok_def)
  qed
  then show ?thesis using bs n pos m f by (auto simp: MappedFile_size_def MappedFile_data_def)
qed

lemma MappedFile_ctor_empty:
  assumes "w_files w path = Some []"
  shows "isl (fst (MappedFile_ctor Writable path flags w)) \<and>
         w_pages (snd (MappedFile_ctor Writable path flags w)) = w_pages w \<and>
         (w_faults w = [] \<longrightarrow> fst (MappedFile_ctor Writable path flags w) = Inl mapping_error)"
proof -
  obtain res w' where c: "MappedFile_ctor Writable path flags w = (res, w')"
    by (cases "MappedFile_ctor Writable path flags w") auto
  have 1: "isl res"
  proof (cases res)
    case (Inr f)
    then show ?thesis using MappedFile_ctor_success[of Writable path flags w f w'] c assms by auto
  qed simp
  have 2: "w_pages w' = w_pages w"
    using c 1
    by (auto simp: MappedFile_ctor_def MemoryMap_ctor_def
             split: prod.splits sum.splits option.splits
             dest!: FileDescriptor_ctor_frame FileDescriptor_size_frame)
       (auto simp: os_mmap_def Let_def split: prod.splits if_splits dest!: take_fault_frame)
  have 3: "w_faults w = [] \<longrightarrow> res = Inl mapping_error"
    using c assms
    by (auto simp: MappedFile_ctor_def FileDescriptor_ctor_def os_open_def take_fault_none
                   FileDescriptor_size_def os_fstat_size_def MemoryMap_ctor_def os_mmap_def Let_def)
  show ?thesis using c 1 2 3 by simp
qed


section \<open>The anonymous region keeps its invariant\<close>

lemma rmm_resize_inv:
  assumes "rmm_inv (w_pagesize w) r"
    and "ResizableMappedMemory_resize n r w = (e, r', w')"
  shows "rmm_inv (w_pagesize w) r' \<and> w_pagesize w' = w_pagesize w \<and>
         rmm_reserved r' = rmm_reserved r \<and> e \<noteq> Some terminated \<and>
         (e = None \<longrightarrow> rmm_size r' = n) \<and> (os_ok w \<longrightarrow> os_ok w')"
proof (cases "n \<le> mm_size (rmm_reserved r)")
  case False
  then show ?thesis using assms
    by (auto simp: ResizableMappedMemory_resize_def ResizableMappedMemory_capacity_def)
next
  case True
  have ps: "0 < w_pagesize w" and b: "w_pagesize w \<le> mm_address (rmm_reserved r)"
    and c: "mm_address (rmm_reserved r) + page_ceil (w_pagesize w) (mm_size (rmm_reserved r)) \<le> 2 ^ 64"
    using assms(1) by (auto simp: rmm_inv_def reservation_ok_def)
  have new: "newMappedSize (w_pagesize w) n = page_ceil (w_pagesize w) n"
    using ps True b c by (intro newMappedSize_eq[where cap = "mm_size (rmm_reserved r)"]) auto
  show ?thesis using assms True
    by (auto simp: ResizableMappedMemory_resize_def ResizableMappedMemory_capacity_def Let_def
                   pageSize_def new rmm_inv_def
             split: if_splits prod.splits bool.splits
             dest!: os_mprotect_frame os_madvise_dontneed_frame
             intro: os_ok_cong)
qed

lemma rmm_ctor_inv:
  assumes "os_ok w0"
    and "ResizableMappedMemory_ctor init cap w0 = (Inr r, w)"
  shows "rmm_inv (w_pagesize w) r \<and> os_ok w \<and> w_pagesize w = w_pagesize w0 \<and>
         rmm_size r = init \<and> mm_size (rmm_reserved r) = cap"
proof -
  obtain m w1 where m: "MemoryMap_ctor {} 0 cap {MAP_PRIVATE, MAP_ANONYMOUS, MAP_NORESERVE} None 0 w0 = (Inr m, w1)"
    and rs: "ResizableMappedMemory_resize init \<lparr>rmm_reserved = m, rmm_size = 0, rmm_mappedSize = 0\<rparr> w1 = (None, r, w)"
    using assms(2)
    by (auto simp: ResizableMappedMemory_ctor_def unwind_reserved_def
             split: prod.splits sum.splits option.splits)
  have r: "reservation_ok (w_pagesize w0) m \<and> mm_size m = cap \<and> os_ok w1 \<and> w_pagesize w1 = w_pagesize w0"
    using reserve_ok[OF assms(1) m] by simp
  then have i: "rmm_inv (w_pagesize w1) \<lparr>rmm_reserved = m, rmm_size = 0, rmm_mappedSize = 0\<rparr>"
    by (auto simp: rmm_inv_def reservation_ok_def page_ceil_zero)
  show ?thesis using rmm_resize_inv[OF i rs] r by auto
qed

lemma run_memory_inv:
  "rmm_inv (w_pagesize w) r \<Longrightarrow> run_memory acts r w = Some (r', w') \<Longrightarrow>
     rmm_inv (w_pagesize w') r' \<and> w_pagesize w' = w_pagesize w \<and> rmm_reserved r' = rmm_reserved r"
proof (induction acts arbitrary: r w)
  case Nil
  then show ?case by simp
next
  case (Cons a acts)
  show ?case
  proof (cases a)
    case (Resize n)
    obtain e r1 w1 where s: "ResizableMappedMemory_resize n r w = (e, r1, w1)"
      by (cases "ResizableMappedMemory_resize n r w") auto
    have i: "rmm_inv (w_pagesize w) r1 \<and> w_pagesize w1 = w_pagesize w \<and>
             rmm_reserved r1 = rmm_reserved r \<and> e \<noteq> Some terminated"
      using rmm_resize_inv[OF Cons.prems(1) s] by simp
    have run: "run_memory acts r1 w1 = Some (r', w')"
      using Cons.prems(2) s i Resize by (auto split: option.splits error.splits)
    have "rmm_inv (w_pagesize w1) r1" using i by simp
    from Cons.IH[OF this run] show ?thesis using i by auto
  next
    case (Store x b)
    obtain w1 where p: "poke x b w = Some w1" and run: "run_memory acts r w1 = Some (r', w')"
      using Cons.prems(2) Store by (auto split: option.splits)
    have f: "w_pagesize w1 = w_pagesize w" using p by (auto dest!: poke_frame)
    have "rmm_inv (w_pagesize w1) r" using Cons.prems(1) f by simp
    from Cons.IH[OF this run] show ?thesis using f by auto
  qed
qed

lemma memory_session_inv:
  assumes "os_ok w0" and "memory_session init cap acts w0 = Some (r, w)"
  shows "rmm_inv (w_pagesize w) r \<and> mm_size (rmm_reserved r) = cap \<and>
         w_pagesize w = w_pagesize w0"
proof -
  obtain r0 w1 where c: "ResizableMappedMemory_ctor init cap w0 = (Inr r0, w1)"
    and run: "run_memory acts r0 w1 = Some (r, w)"
    using assms(2) by (auto simp: memory_session_def split: prod.splits sum.splits)
  have i: "rmm_inv (w_pagesize w1) r0 \<and> w_pagesize w1 = w_pagesize w0 \<and> mm_size (rmm_reserved r0) = cap"
    using rmm_ctor_inv[OF assms(1) c] by auto
  then have "rmm_inv (w_pagesize w1) r0" by (rule conjunct1)
  from run_memory_inv[OF this run] show ?thesis using i by auto
qed

lemma run_memory_append:
  "run_memory (acts @ acts') r w =
     (case run_memory acts r w of None \<Rightarrow> None | Some (r1, w1) \<Rightarrow> run_memory acts' r1 w1)"
proof (induction acts arbitrary: r w)
  case Nil
  then show ?case by simp
next
  case (Cons a acts)
  then show ?case
    by (cases a) (auto split: prod.splits option.splits error.splits)
qed

lemma memory_session_append:
  assumes "memory_session init cap acts w0 = Some (r, w)"
    and "memory_session init cap (acts @ acts') w0 = Some (r', w')"
  shows "run_memory acts' r w = Some (r', w')"
  using assms
  by (auto simp: memory_session_def run_memory_append split: prod.splits sum.splits option.splits)

lemma rmm_data_size:
  assumes "rmm_inv ps r"
  shows "ResizableMappedMemory_data r =
           (if ResizableMappedMemory_size r = 0 then 0 else mm_address (rmm_reserved r)) \<and>
         mm_address (rmm_reserved r) \<noteq> 0"
  using assms
  by (auto simp: rmm_inv_def reservation_ok_def ResizableMappedMemory_data_def
                 ResizableMappedMemory_size_def)

lemma rmm_resize_prefix:
  assumes inv: "rmm_inv (w_pagesize w) r"
    and s: "ResizableMappedMemory_resize n r w = (None, r', w')"
    and k: "k < min (rmm_size r) n"
  shows "peek w' (mm_address (rmm_reserved r) + k) = peek w (mm_address (rmm_reserved r) + k)"
proof -
  let ?ps = "w_pagesize w" and ?base = "mm_address (rmm_reserved r)"
  have ps: "0 < ?ps" and b: "?ps \<le> ?base" and al: "?base mod ?ps = 0"
    and c: "?base + page_ceil ?ps (mm_size (rmm_reserved r)) \<le> 2 ^ 64"
    and ms: "rmm_mappedSize r = page_ceil ?ps (rmm_size r)"
    using inv by (auto simp: rmm_inv_def reservation_ok_def)
  have le: "n \<le> mm_size (rmm_reserved r)"
    using s by (auto simp: ResizableMappedMemory_resize_def ResizableMappedMemory_capacity_def
                     split: if_splits)
  have new: "newMappedSize ?ps n = page_ceil ?ps n"
    using ps le b c by (intro newMappedSize_eq[where cap = "mm_size (rmm_reserved r)"]) auto
  have kold: "?base + k < ?base + page_ceil ?ps (rmm_size r)"
    using k page_ceil_ge[OF ps, of "rmm_size r"] by simp
  have knew: "?base + k < ?base + page_ceil ?ps n"
    using k page_ceil_ge[OF ps, of n] by simp
  have aold: "(?base + page_ceil ?ps (rmm_size r)) mod ?ps = 0"
    using al by (simp add: page_ceil_mod mod_add_eq[symmetric])
  have anew: "(?base + page_ceil ?ps n) mod ?ps = 0"
    using al by (simp add: page_ceil_mod mod_add_eq[symmetric])
  have pold: "(?base + k) div ?ps < (?base + page_ceil ?ps (rmm_size r)) div ?ps"
    using ps aold kold by (rule div_less_aligned)
  have pnew: "(?base + k) div ?ps < (?base + page_ceil ?ps n) div ?ps"
    using ps anew knew by (rule div_less_aligned)
  have "w_pagesize w' = ?ps \<and> w_pages w' ((?base + k) div ?ps) = w_pages w ((?base + k) div ?ps) \<and>
        w_mem w' (?base + k) = w_mem w (?base + k) \<and> w_files w' = w_files w"
  proof (cases "page_ceil ?ps n > rmm_mappedSize r")
    case True
    then obtain "os_mprotect (?base + rmm_mappedSize r) (page_ceil ?ps n - rmm_mappedSize r)
                   {PROT_READ, PROT_WRITE} w = (True, w')"
      using s le
      by (auto simp: ResizableMappedMemory_resize_def ResizableMappedMemory_capacity_def Let_def
                     pageSize_def new split: if_splits prod.splits bool.splits)
    then show ?thesis
      using pold ms by (auto dest: os_mprotect_frame os_mprotect_below)
  next
    case False
    show ?thesis
    proof (cases "page_ceil ?ps n < rmm_mappedSize r")
      case True
      then obtain w1 where m1: "os_mprotect (?base + page_ceil ?ps n) (rmm_mappedSize r - page_ceil ?ps n) {} w = (True, w1)"
        and m2: "os_madvise_dontneed (?base + page_ceil ?ps n) (rmm_mappedSize r - page_ceil ?ps n) w1 = (True, w')"
        using s le
        by (auto simp: ResizableMappedMemory_resize_def ResizableMappedMemory_capacity_def Let_def
                       pageSize_def new split: if_splits prod.splits bool.splits)
      have f1: "w_pagesize w1 = ?ps \<and> w_mem w1 = w_mem w \<and> w_files w1 = w_files w"
        using m1 by (auto dest: os_mprotect_frame)
      have p1: "w_pages w1 ((?base + k) div ?ps) = w_pages w ((?base + k) div ?ps)"
        using m1 pnew by (rule os_mprotect_below)
      have f2: "w_pagesize w' = w_pagesize w1 \<and> w_pages w' = w_pages w1 \<and> w_files w' = w_files w1"
        using m2 by (auto dest: os_madvise_dontneed_frame)
      have p2: "w_mem w' (?base + k) = w_mem w1 (?base + k)"
        using m2 pnew f1 by (intro os_madvise_dontneed_below[OF m2]) simp
      show ?thesis using f1 p1 f2 p2 by simp
    next
      case False
      then have "w' = w"
        using s le \<open>\<not> rmm_mappedSize r < page_ceil ?ps n\<close>
        by (auto simp: ResizableMappedMemory_resize_def ResizableMappedMemory_capacity_def Let_def
                       pageSize_def new split: if_splits prod.splits bool.splits)
      then show ?thesis by simp
    qed
  qed
  then show ?thesis by (intro peek_cong) auto
qed


section \<open>The committed pages of the anonymous region\<close>

lemma page_count_times: "page_count w len * w_pagesize w = page_ceil (w_pagesize w) len"
  by (simp add: page_count_def page_ceil_def)

lemma page_count_ceil: "0 < w_pagesize w \<Longrightarrow> page_count w len = page_ceil (w_pagesize w) len div w_pagesize w"
  by (simp add: page_count_def page_ceil_def)

lemma page_count_diff:
  assumes ps: "0 < w_pagesize w" and a: "a mod w_pagesize w = 0" and b: "b mod w_pagesize w = 0"
    and le: "a \<le> b"
  shows "page_count w (b - a) = b div w_pagesize w - a div w_pagesize w"
proof -
  let ?ps = "w_pagesize w"
  have "?ps dvd a" "?ps dvd b" using a b by (simp_all add: mod_eq_0_iff_dvd)
  then have ea: "a div ?ps * ?ps = a" and eb: "b div ?ps * ?ps = b"
    by (simp_all add: dvd_div_mult_self)
  have d: "b - a = (b div ?ps - a div ?ps) * ?ps"
    using ea eb by (simp add: diff_mult_distrib)
  have "(b - a) mod ?ps = 0" by (subst d) simp
  then have "page_ceil ?ps (b - a) = b - a" using ps by (simp add: page_ceil_dvd)
  then have "page_count w (b - a) = (b - a) div ?ps" using ps by (simp add: page_count_ceil)
  also have "\<dots> = b div ?ps - a div ?ps" by (subst d) (use ps in simp)
  finally show ?thesis .
qed

lemma commit_ok_iff:
  "commit_ok w r =
     (\<forall>p. in_range (mm_address (rmm_reserved r) div w_pagesize w)
                   (page_count w (mm_size (rmm_reserved r))) p \<longrightarrow>
          w_pages w p =
            Some \<lparr>pg_prot = (if p < mm_address (rmm_reserved r) div w_pagesize w
                                      + rmm_mappedSize r div w_pagesize w
                             then {PROT_READ, PROT_WRITE} else {}),
                  pg_back = Anon\<rparr>)"
  by (auto simp: commit_ok_def Let_def list_all_iff in_range_def)

lemma commit_ok_cong:
  "commit_ok w r \<Longrightarrow> w_pagesize w' = w_pagesize w \<Longrightarrow> w_pages w' = w_pages w \<Longrightarrow> commit_ok w' r"
  by (simp add: commit_ok_def page_count_def)

lemma os_mprotect_pages:
  "os_mprotect addr len prot w = (True, w') \<Longrightarrow>
     w_pagesize w' = w_pagesize w \<and>
     w_pages w' = (\<lambda>p. if in_range (addr div w_pagesize w) (page_count w len) p
                        then map_option (\<lambda>g. g\<lparr>pg_prot := prot\<rparr>) (w_pages w p)
                        else w_pages w p)"
  by (auto simp: os_mprotect_def Let_def page_count_def split: prod.splits if_splits
           dest!: take_fault_frame)

lemma os_mmap_anon_pages:
  assumes "os_mmap addr len prot {MAP_PRIVATE, MAP_ANONYMOUS, MAP_NORESERVE} None 0 w = (Some a, w')"
    and "in_range (a div w_pagesize w) (page_count w len) p"
  shows "w_pages w' p = Some \<lparr>pg_prot = prot, pg_back = Anon\<rparr>"
  using assms
  by (auto simp: os_mmap_def Let_def page_count_def split: prod.splits if_splits
           dest!: take_fault_frame)

lemma reserve_commit_ok:
  assumes "MemoryMap_ctor {} 0 cap {MAP_PRIVATE, MAP_ANONYMOUS, MAP_NORESERVE} None 0 w = (Inr m, w')"
  shows "commit_ok w' \<lparr>rmm_reserved = m, rmm_size = 0, rmm_mappedSize = 0\<rparr>"
proof -
  obtain a where mm: "os_mmap 0 cap {} {MAP_PRIVATE, MAP_ANONYMOUS, MAP_NORESERVE} None 0 w = (Some a, w')"
    and m: "m = \<lparr>mm_prot = {}, mm_size = cap, mm_address = a, mm_fixed = False\<rparr>"
    using assms by (auto simp: MemoryMap_ctor_def split: prod.splits option.splits)
  have f: "w_pagesize w' = w_pagesize w" using mm by (auto dest!: os_mmap_frame)
  show ?thesis
    unfolding commit_ok_iff
    using os_mmap_anon_pages[OF mm] by (auto simp: m f page_count_def in_range_def)
qed

lemma rmm_resize_commit:
  assumes inv: "rmm_inv (w_pagesize w) r" and co: "commit_ok w r"
    and s: "ResizableMappedMemory_resize n r w = (None, r', w')"
  shows "commit_ok w' r'"
proof -
  let ?ps = "w_pagesize w" and ?base = "mm_address (rmm_reserved r)"
  let ?first = "?base div ?ps" and ?old = "rmm_mappedSize r"
  let ?new = "page_ceil ?ps n"
  have ps: "0 < ?ps" and b: "?ps \<le> ?base" and al: "?base mod ?ps = 0"
    and c: "?base + page_ceil ?ps (mm_size (rmm_reserved r)) \<le> 2 ^ 64"
    and ms: "?old = page_ceil ?ps (rmm_size r)"
    using inv by (auto simp: rmm_inv_def reservation_ok_def)
  have le: "n \<le> mm_size (rmm_reserved r)"
    using s by (auto simp: ResizableMappedMemory_resize_def ResizableMappedMemory_capacity_def
                     split: if_splits)
  have new: "newMappedSize ?ps n = ?new"
    using ps le b c by (intro newMappedSize_eq[where cap = "mm_size (rmm_reserved r)"]) auto
  have mo: "?old mod ?ps = 0" using ms by (simp add: page_ceil_mod)
  have mn: "?new mod ?ps = 0" by (simp add: page_ceil_mod)
  have r': "rmm_reserved r' = rmm_reserved r \<and> rmm_mappedSize r' = ?new \<and> w_pagesize w' = ?ps"
    using rmm_resize_inv[OF inv s] by (auto simp: rmm_inv_def)
  have pg: "\<And>p. in_range ?first (page_count w (mm_size (rmm_reserved r))) p \<Longrightarrow>
             w_pages w p = Some \<lparr>pg_prot = (if p < ?first + ?old div ?ps
                                             then {PROT_READ, PROT_WRITE} else {}),
                                   pg_back = Anon\<rparr>"
    using co by (simp add: commit_ok_iff)
  have goal: "\<And>p. in_range ?first (page_count w (mm_size (rmm_reserved r))) p \<Longrightarrow>
             w_pages w' p = Some \<lparr>pg_prot = (if p < ?first + ?new div ?ps
                                             then {PROT_READ, PROT_WRITE} else {}),
                                    pg_back = Anon\<rparr>"
  proof -
    fix p assume p: "in_range ?first (page_count w (mm_size (rmm_reserved r))) p"
    note wp = pg[OF p]
    consider (grow) "?new > ?old" | (shrink) "?new < ?old" | (same) "?new = ?old" by linarith
    then show "w_pages w' p = Some \<lparr>pg_prot = (if p < ?first + ?new div ?ps
                                             then {PROT_READ, PROT_WRITE} else {}),
                                    pg_back = Anon\<rparr>"
    proof cases
      case grow
      then have mp: "os_mprotect (?base + ?old) (?new - ?old) {PROT_READ, PROT_WRITE} w = (True, w')"
        using s le
        by (auto simp: ResizableMappedMemory_resize_def ResizableMappedMemory_capacity_def Let_def
                       pageSize_def new split: if_splits prod.splits bool.splits)
      have fp: "(?base + ?old) div ?ps = ?first + ?old div ?ps" using ps al by (rule page_index)
      have pc: "page_count w (?new - ?old) = ?new div ?ps - ?old div ?ps"
        using ps mo mn grow by (intro page_count_diff) auto
      have dv: "?old div ?ps \<le> ?new div ?ps" using grow by (simp add: div_le_mono)
      show ?thesis
        using os_mprotect_pages[OF mp] wp dv
        by (auto simp: fp pc in_range_def)
    next
      case shrink
      then obtain w1 where mp: "os_mprotect (?base + ?new) (?old - ?new) {} w = (True, w1)"
        and ma: "os_madvise_dontneed (?base + ?new) (?old - ?new) w1 = (True, w')"
        using s le
        by (auto simp: ResizableMappedMemory_resize_def ResizableMappedMemory_capacity_def Let_def
                       pageSize_def new split: if_splits prod.splits bool.splits)
      have fp: "(?base + ?new) div ?ps = ?first + ?new div ?ps" using ps al by (rule page_index)
      have pc: "page_count w (?old - ?new) = ?old div ?ps - ?new div ?ps"
        using ps mn mo shrink by (intro page_count_diff) auto
      have dv: "?new div ?ps \<le> ?old div ?ps" using shrink by (simp add: div_le_mono)
      have e: "w_pages w' = w_pages w1" using ma by (auto dest!: os_madvise_dontneed_frame)
      show ?thesis
        using os_mprotect_pages[OF mp] wp dv
        by (auto simp: e fp pc in_range_def)
    next
      case same
      then have "w' = w"
        using s le
        by (auto simp: ResizableMappedMemory_resize_def ResizableMappedMemory_capacity_def Let_def
                       pageSize_def new split: if_splits prod.splits bool.splits)
      then show ?thesis using wp same by simp
    qed
  qed
  show ?thesis
    unfolding commit_ok_iff using goal r' by (simp add: page_count_def)
qed

lemma rmm_resize_bad_alloc:
  "ResizableMappedMemory_resize n r w = (Some bad_alloc, r', w') \<Longrightarrow> r' = r \<and> w' = w"
  by (auto simp: ResizableMappedMemory_resize_def Let_def
           split: if_splits prod.splits bool.splits)

lemma rmm_resize_clean_commit:
  assumes inv: "rmm_inv (w_pagesize w) r" and co: "commit_ok w r"
    and s: "ResizableMappedMemory_resize n r w = (e, r', w')"
    and e: "e = None \<or> e = Some bad_alloc"
  shows "commit_ok w' r'"
  using e
proof
  assume "e = None"
  then show ?thesis using rmm_resize_commit[OF inv co] s by simp
next
  assume "e = Some bad_alloc"
  then show ?thesis using rmm_resize_bad_alloc[of n r w r' w'] s co by simp
qed

lemma rmm_ctor_commit:
  assumes "os_ok w0" and "ResizableMappedMemory_ctor init cap w0 = (Inr r, w)"
  shows "commit_ok w r"
proof -
  obtain m w1 where m: "MemoryMap_ctor {} 0 cap {MAP_PRIVATE, MAP_ANONYMOUS, MAP_NORESERVE} None 0 w0 = (Inr m, w1)"
    and rs: "ResizableMappedMemory_resize init \<lparr>rmm_reserved = m, rmm_size = 0, rmm_mappedSize = 0\<rparr> w1 = (None, r, w)"
    using assms(2)
    by (auto simp: ResizableMappedMemory_ctor_def unwind_reserved_def
             split: prod.splits sum.splits option.splits)
  have r: "reservation_ok (w_pagesize w0) m \<and> mm_size m = cap \<and> os_ok w1 \<and> w_pagesize w1 = w_pagesize w0"
    using reserve_ok[OF assms(1) m] by simp
  then have i: "rmm_inv (w_pagesize w1) \<lparr>rmm_reserved = m, rmm_size = 0, rmm_mappedSize = 0\<rparr>"
    by (auto simp: rmm_inv_def reservation_ok_def page_ceil_zero)
  show ?thesis using i reserve_commit_ok[OF m] rs by (rule rmm_resize_commit)
qed

lemma run_memory_commit:
  "rmm_inv (w_pagesize w) r \<Longrightarrow> commit_ok w r \<Longrightarrow> resizes_clean acts r w \<Longrightarrow>
   run_memory acts r w = Some (r', w') \<Longrightarrow> commit_ok w' r'"
proof (induction acts arbitrary: r w)
  case Nil
  then show ?case by simp
next
  case (Cons a acts)
  show ?case
  proof (cases a)
    case (Resize n)
    obtain e r1 w1 where s: "ResizableMappedMemory_resize n r w = (e, r1, w1)"
      by (cases "ResizableMappedMemory_resize n r w") auto
    have e: "e = None \<or> e = Some bad_alloc" and cl: "resizes_clean acts r1 w1"
      using Cons.prems(3) s Resize by (auto split: option.splits error.splits)
    have i: "rmm_inv (w_pagesize w) r1 \<and> w_pagesize w1 = w_pagesize w"
      using rmm_resize_inv[OF Cons.prems(1) s] by simp
    have co: "commit_ok w1 r1" using Cons.prems(1,2) s e by (rule rmm_resize_clean_commit)
    have run: "run_memory acts r1 w1 = Some (r', w')"
      using Cons.prems(4) s e Resize by (auto split: option.splits error.splits)
    have "rmm_inv (w_pagesize w1) r1" using i by simp
    from Cons.IH[OF this co cl run] show ?thesis .
  next
    case (Store x b)
    obtain w1 where p: "poke x b w = Some w1" and run: "run_memory acts r w1 = Some (r', w')"
      using Cons.prems(4) Store by (auto split: option.splits)
    have f: "w_pagesize w1 = w_pagesize w \<and> w_pages w1 = w_pages w" using p by (auto dest!: poke_frame)
    have i: "rmm_inv (w_pagesize w1) r" using Cons.prems(1) f by simp
    have co: "commit_ok w1 r" using Cons.prems(2) f by (auto intro: commit_ok_cong)
    have cl: "resizes_clean acts r w1" using Cons.prems(3) Store p by simp
    from Cons.IH[OF i co cl run] show ?thesis .
  qed
qed

lemma memory_session_commit:
  assumes "os_ok w0" and "memory_session init cap acts w0 = Some (r, w)"
    and "session_clean init cap acts w0"
  shows "commit_ok w r"
proof -
  obtain r0 w1 where c: "ResizableMappedMemory_ctor init cap w0 = (Inr r0, w1)"
    and run: "run_memory acts r0 w1 = Some (r, w)"
    using assms(2) by (auto simp: memory_session_def split: prod.splits sum.splits)
  have cl: "resizes_clean acts r0 w1" using assms(3) c by (simp add: session_clean_def)
  have i: "rmm_inv (w_pagesize w1) r0" using rmm_ctor_inv[OF assms(1) c] by (rule conjunct1)
  have co: "commit_ok w1 r0" using assms(1) c by (rule rmm_ctor_commit)
  show ?thesis using i co cl run by (rule run_memory_commit)
qed

lemma commit_ok_access:
  assumes inv: "rmm_inv (w_pagesize w) r" and co: "commit_ok w r"
  shows "(x < rmm_mappedSize r \<longrightarrow>
            peek w (mm_address (rmm_reserved r) + x) = Some (w_mem w (mm_address (rmm_reserved r) + x)) \<and>
            poke (mm_address (rmm_reserved r) + x) b w \<noteq> None) \<and>
         (rmm_mappedSize r \<le> x \<and> x < page_ceil (w_pagesize w) (mm_size (rmm_reserved r)) \<longrightarrow>
            peek w (mm_address (rmm_reserved r) + x) = None \<and>
            poke (mm_address (rmm_reserved r) + x) b w = None)"
proof -
  let ?ps = "w_pagesize w" and ?base = "mm_address (rmm_reserved r)"
  let ?first = "?base div ?ps" and ?cap = "mm_size (rmm_reserved r)"
  have ps: "0 < ?ps" and al: "?base mod ?ps = 0"
    and sz: "rmm_size r \<le> ?cap"
    and ms: "rmm_mappedSize r = page_ceil ?ps (rmm_size r)"
    using inv by (auto simp: rmm_inv_def reservation_ok_def)
  have mo: "rmm_mappedSize r mod ?ps = 0" using ms by (simp add: page_ceil_mod)
  have mc: "rmm_mappedSize r \<le> page_ceil ?ps ?cap" using sz ms by (simp add: page_ceil_mono)
  have fp: "(?base + x) div ?ps = ?first + x div ?ps" using ps al by (rule page_index)
  have pcc: "page_count w ?cap = page_ceil ?ps ?cap div ?ps" using ps by (rule page_count_ceil)
  have pg: "\<And>p. in_range ?first (page_count w ?cap) p \<Longrightarrow>
             w_pages w p = Some \<lparr>pg_prot = (if p < ?first + rmm_mappedSize r div ?ps
                                             then {PROT_READ, PROT_WRITE} else {}),
                                   pg_back = Anon\<rparr>"
    using co by (simp add: commit_ok_iff)
  have a: "x < rmm_mappedSize r \<longrightarrow>
            peek w (?base + x) = Some (w_mem w (?base + x)) \<and> poke (?base + x) b w \<noteq> None"
  proof
    assume x: "x < rmm_mappedSize r"
    have 1: "x div ?ps < rmm_mappedSize r div ?ps" using ps mo x by (rule div_less_aligned)
    have "x < page_ceil ?ps ?cap" using x mc by simp
    then have 2: "x div ?ps < page_count w ?cap"
      unfolding pcc using ps page_ceil_mod[of ?ps ?cap] by (intro div_less_aligned) auto
    have "in_range ?first (page_count w ?cap) (?first + x div ?ps)" using 2 by (simp add: in_range_def)
    from pg[OF this] show "peek w (?base + x) = Some (w_mem w (?base + x)) \<and> poke (?base + x) b w \<noteq> None"
      using 1 by (simp add: peek_def poke_def fp)
  qed
  have c: "rmm_mappedSize r \<le> x \<and> x < page_ceil ?ps ?cap \<longrightarrow>
            peek w (?base + x) = None \<and> poke (?base + x) b w = None"
  proof
    assume x: "rmm_mappedSize r \<le> x \<and> x < page_ceil ?ps ?cap"
    have 1: "rmm_mappedSize r div ?ps \<le> x div ?ps" using x by (simp add: div_le_mono)
    have 2: "x div ?ps < page_count w ?cap"
      unfolding pcc using ps page_ceil_mod[of ?ps ?cap] x by (intro div_less_aligned) auto
    have "in_range ?first (page_count w ?cap) (?first + x div ?ps)" using 2 by (simp add: in_range_def)
    from pg[OF this] show "peek w (?base + x) = None \<and> poke (?base + x) b w = None"
      using 1 by (simp add: peek_def poke_def fp)
  qed
  show ?thesis using a c by blast
qed


section \<open>The resizable file keeps its invariants\<close>

lemma reset_mapped_files:
  "reset_mapped r w = (res, r', w') \<Longrightarrow>
     w_files w' = w_files w \<and> rmf_file r' = rmf_file r \<and> rmf_reserved r' = rmf_reserved r"
  by (auto simp: reset_mapped_def split: prod.splits option.splits dest!: MemoryMap_dtor_files)

lemma ResizableMappedFile_map_files:
  "ResizableMappedFile_map sz r w = (res, r', w') \<Longrightarrow>
     w_files w' = w_files w \<and> rmf_file r' = rmf_file r \<and> rmf_reserved r' = rmf_reserved r"
  by (auto simp: ResizableMappedFile_map_def split: prod.splits option.splits sum.splits
           dest!: reset_mapped_files MemoryMap_ctor_files)

lemma reset_mapped_inv:
  assumes "rmf_inv ps r" and "reset_mapped r w = (e, r', w')"
  shows "rmf_inv ps r' \<and> w_pagesize w' = w_pagesize w \<and> rmf_reserved r' = rmf_reserved r \<and>
         rmf_file r' = rmf_file r \<and> (e = None \<longrightarrow> rmf_mapped r' = None)"
  using assms
  by (auto simp: reset_mapped_def rmf_inv_def split: option.splits prod.splits
           dest!: MemoryMap_dtor_frame)

lemma ResizableMappedFile_map_inv:
  assumes "rmf_inv ps r" and "sz \<le> mm_size (rmf_reserved r)"
    and "ResizableMappedFile_map sz r w = (e, r', w')"
  shows "rmf_inv ps r' \<and> w_pagesize w' = w_pagesize w \<and> rmf_reserved r' = rmf_reserved r \<and>
         rmf_file r' = rmf_file r \<and>
         (e = None \<longrightarrow> ResizableMappedFile_size r' = sz \<and> 0 < sz)"
proof -
  obtain e1 r1 w1 where rs: "reset_mapped r w = (e1, r1, w1)"
    by (cases "reset_mapped r w") auto
  have i1: "rmf_inv ps r1 \<and> w_pagesize w1 = w_pagesize w \<and> rmf_reserved r1 = rmf_reserved r \<and>
         rmf_file r1 = rmf_file r \<and> (e1 = None \<longrightarrow> rmf_mapped r1 = None)"
    using assms(1) rs by (rule reset_mapped_inv)
  show ?thesis
  proof (cases e1)
    case (Some t)
    then show ?thesis using assms(3) rs i1 by (auto simp: ResizableMappedFile_map_def)
  next
    case None
    obtain res w2 where c: "MemoryMap_ctor {PROT_READ, PROT_WRITE} (mm_address (rmf_reserved r1)) sz
                  {MAP_FIXED, MAP_SHARED} (Some (rmf_file r1)) 0 w1 = (res, w2)"
      by (cases "MemoryMap_ctor {PROT_READ, PROT_WRITE} (mm_address (rmf_reserved r1)) sz
                  {MAP_FIXED, MAP_SHARED} (Some (rmf_file r1)) 0 w1") auto
    have f: "w_pagesize w2 = w_pagesize w1" using c by (auto dest!: MemoryMap_ctor_frame)
    show ?thesis
    proof (cases res)
      case (Inl t)
      then show ?thesis using assms(3) rs i1 None c f
        by (auto simp: ResizableMappedFile_map_def rmf_inv_def)
    next
      case (Inr m)
      then obtain a where mm: "os_mmap (mm_address (rmf_reserved r1)) sz {PROT_READ, PROT_WRITE}
                  {MAP_FIXED, MAP_SHARED} (Some (rmf_file r1)) 0 w1 = (Some a, w2)"
        and m: "m = \<lparr>mm_prot = {PROT_READ, PROT_WRITE}, mm_size = sz, mm_address = a, mm_fixed = True\<rparr>"
        using c by (auto simp: MemoryMap_ctor_def split: prod.splits option.splits)
      have a: "a = mm_address (rmf_reserved r1) \<and> 0 < sz"
        using os_mmap_fixed[OF mm] by simp
      show ?thesis using assms(2,3) rs i1 None c f Inr m a
        by (auto simp: ResizableMappedFile_map_def rmf_inv_def ResizableMappedFile_size_def)
    qed
  qed
qed

lemma rmf_resize_inv:
  assumes "rmf_inv ps r" and "ResizableMappedFile_resize n r w = (e, r', w')"
  shows "rmf_inv ps r' \<and> w_pagesize w' = w_pagesize w \<and> rmf_reserved r' = rmf_reserved r \<and>
         rmf_file r' = rmf_file r \<and> (e = None \<longrightarrow> ResizableMappedFile_size r' = n)"
proof (cases "n \<le> mm_size (rmf_reserved r)")
  case False
  then show ?thesis using assms
    by (auto simp: ResizableMappedFile_resize_def throwIfAbove_def)
next
  case True
  obtain e1 r1 w1 where rs: "reset_mapped r w = (e1, r1, w1)"
    by (cases "reset_mapped r w") auto
  have i1: "rmf_inv ps r1 \<and> w_pagesize w1 = w_pagesize w \<and> rmf_reserved r1 = rmf_reserved r \<and>
         rmf_file r1 = rmf_file r \<and> (e1 = None \<longrightarrow> rmf_mapped r1 = None)"
    using assms(1) rs by (rule reset_mapped_inv)
  show ?thesis
  proof (cases e1)
    case (Some t)
    then show ?thesis using assms(2) rs i1 True
      by (auto simp: ResizableMappedFile_resize_def throwIfAbove_def)
  next
    case None
    obtain e2 w2 where t: "FileDescriptor_truncate (rmf_file r1) n w1 = (e2, w2)"
      by (cases "FileDescriptor_truncate (rmf_file r1) n w1") auto
    have f2: "w_pagesize w2 = w_pagesize w1" using t by (auto dest!: FileDescriptor_truncate_frame)
    show ?thesis
    proof (cases "e2 = None \<and> n \<noteq> 0")
      case False
      then show ?thesis using assms(2) rs i1 \<open>n \<le> mm_size (rmf_reserved r)\<close> None t f2
        by (auto simp: ResizableMappedFile_resize_def throwIfAbove_def ResizableMappedFile_size_def
                 split: option.splits)
    next
      case True
      then have m: "ResizableMappedFile_map n r1 w2 = (e, r', w')"
        using assms(2) rs \<open>n \<le> mm_size (rmf_reserved r)\<close> None t
        by (auto simp: ResizableMappedFile_resize_def throwIfAbove_def)
      have "rmf_inv ps r1" and "n \<le> mm_size (rmf_reserved r1)"
        using i1 \<open>n \<le> mm_size (rmf_reserved r)\<close> by auto
      from ResizableMappedFile_map_inv[OF this m] show ?thesis using i1 f2 by auto
    qed
  qed
qed

lemma rmf_ctor_inv:
  assumes "os_ok w0" and "ResizableMappedFile_ctor path cap w0 = (Inr r, w)"
  shows "rmf_inv (w_pagesize w) r \<and> w_pagesize w = w_pagesize w0 \<and>
         mm_size (rmf_reserved r) = cap"
proof -
  obtain m w1 where m: "MemoryMap_ctor {} 0 cap {MAP_PRIVATE, MAP_ANONYMOUS, MAP_NORESERVE} None 0 w0 = (Inr m, w1)"
    using assms(2)
    by (auto simp: ResizableMappedFile_ctor_def split: prod.splits sum.splits)
  obtain fl w2 where fd: "FileDescriptor_ctor path {O_CREAT, O_RDWR} w1 = (Inr fl, w2)"
    using assms(2) m
    by (auto simp: ResizableMappedFile_ctor_def unwind_reserved_def
             split: prod.splits sum.splits option.splits)
  obtain fsize w3 where fs: "FileDescriptor_size fl w2 = (Inr fsize, w3)"
    using assms(2) m fd
    by (auto simp: ResizableMappedFile_ctor_def unwind_reserved_def
             split: prod.splits sum.splits option.splits)
  have le: "fsize \<le> mm_size m"
    using assms(2) m fd fs
    by (auto simp: ResizableMappedFile_ctor_def unwind_reserved_def throwIfAbove_def
             split: prod.splits sum.splits option.splits if_splits)
  let ?r = "\<lparr>rmf_reserved = m, rmf_file = fl, rmf_mapped = None\<rparr>"
  have rok: "reservation_ok (w_pagesize w0) m" and msz: "mm_size m = cap"
    and p1: "w_pagesize w1 = w_pagesize w0"
    using reserve_ok[OF assms(1) m] by auto
  have p2: "w_pagesize w2 = w_pagesize w1" using fd by (auto dest!: FileDescriptor_ctor_frame)
  have p3: "w_pagesize w3 = w_pagesize w2" using fs by (auto dest!: FileDescriptor_size_frame)
  have i: "rmf_inv (w_pagesize w0) ?r" using rok by (simp add: rmf_inv_def)
  show ?thesis
  proof (cases "fsize = 0")
    case True
    then have "r = ?r \<and> w = w3"
      using assms(2) m fd fs le
      by (auto simp: ResizableMappedFile_ctor_def throwIfAbove_def Let_def)
    then show ?thesis using i p1 p2 p3 msz by auto
  next
    case False
    then have mp: "ResizableMappedFile_map fsize ?r w3 = (None, r, w)"
      using assms(2) m fd fs le
      by (auto simp: ResizableMappedFile_ctor_def throwIfAbove_def Let_def unwind_reserved_def
               split: prod.splits option.splits)
    have "fsize \<le> mm_size (rmf_reserved ?r)" using le by simp
    from ResizableMappedFile_map_inv[OF i this mp] show ?thesis using p1 p2 p3 msz by auto
  qed
qed

lemma run_file_inv:
  "rmf_inv (w_pagesize w) r \<Longrightarrow> run_file acts r w = Some (r', w') \<Longrightarrow>
     rmf_inv (w_pagesize w') r' \<and> w_pagesize w' = w_pagesize w \<and>
     rmf_reserved r' = rmf_reserved r \<and> rmf_file r' = rmf_file r"
proof (induction acts arbitrary: r w)
  case Nil
  then show ?case by simp
next
  case (Cons a acts)
  show ?case
  proof (cases a)
    case (Resize n)
    obtain e r1 w1 where s: "ResizableMappedFile_resize n r w = (e, r1, w1)"
      by (cases "ResizableMappedFile_resize n r w") auto
    have i: "rmf_inv (w_pagesize w) r1 \<and> w_pagesize w1 = w_pagesize w \<and>
             rmf_reserved r1 = rmf_reserved r \<and> rmf_file r1 = rmf_file r"
      using rmf_resize_inv[OF Cons.prems(1) s] by simp
    have run: "run_file acts r1 w1 = Some (r', w')"
      using Cons.prems(2) s Resize by (auto split: option.splits error.splits)
    have "rmf_inv (w_pagesize w1) r1" using i by simp
    from Cons.IH[OF this run] show ?thesis using i by auto
  next
    case (Store x b)
    obtain w1 where p: "poke x b w = Some w1" and run: "run_file acts r w1 = Some (r', w')"
      using Cons.prems(2) Store by (auto split: option.splits)
    have f: "w_pagesize w1 = w_pagesize w" using p by (auto dest!: poke_frame)
    have "rmf_inv (w_pagesize w1) r" using Cons.prems(1) f by simp
    from Cons.IH[OF this run] show ?thesis using f by auto
  qed
qed

lemma file_session_inv:
  assumes "os_ok w0" and "file_session path cap acts w0 = Some (r, w)"
  shows "rmf_inv (w_pagesize w) r \<and> mm_size (rmf_reserved r) = cap \<and>
         w_pagesize w = w_pagesize w0"
proof -
  obtain r0 w1 where c: "ResizableMappedFile_ctor path cap w0 = (Inr r0, w1)"
    and run: "run_file acts r0 w1 = Some (r, w)"
    using assms(2) by (auto simp: file_session_def split: prod.splits sum.splits)
  have i: "rmf_inv (w_pagesize w1) r0 \<and> w_pagesize w1 = w_pagesize w0 \<and> mm_size (rmf_reserved r0) = cap"
    using rmf_ctor_inv[OF assms(1) c] by auto
  then have "rmf_inv (w_pagesize w1) r0" by (rule conjunct1)
  from run_file_inv[OF this run] show ?thesis using i by auto
qed

lemma run_file_append:
  "run_file (acts @ acts') r w =
     (case run_file acts r w of None \<Rightarrow> None | Some (r1, w1) \<Rightarrow> run_file acts' r1 w1)"
proof (induction acts arbitrary: r w)
  case Nil
  then show ?case by simp
next
  case (Cons a acts)
  then show ?case
    by (cases a) (auto split: prod.splits option.splits error.splits)
qed

lemma file_session_append:
  assumes "file_session path cap acts w0 = Some (r, w)"
    and "file_session path cap (acts @ acts') w0 = Some (r', w')"
  shows "run_file acts' r w = Some (r', w')"
  using assms
  by (auto simp: file_session_def run_file_append split: prod.splits sum.splits option.splits)

lemma rmf_data_size:
  assumes "rmf_inv ps r"
  shows "ResizableMappedFile_data r =
           (if ResizableMappedFile_size r = 0 then 0 else mm_address (rmf_reserved r)) \<and>
         mm_address (rmf_reserved r) \<noteq> 0"
  using assms
  by (auto simp: rmf_inv_def reservation_ok_def ResizableMappedFile_data_def
                 ResizableMappedFile_size_def split: option.splits)

lemma rmf_ctor_oversized:
  assumes f: "w_files w path = Some bs" and lt: "cap < length bs"
    and c: "ResizableMappedFile_ctor path cap w = (res, w')"
  shows "isl res \<and> w_files w' = w_files w"
proof -
  obtain mr w1 where m: "MemoryMap_ctor {} 0 cap {MAP_PRIVATE, MAP_ANONYMOUS, MAP_NORESERVE} None 0 w = (mr, w1)"
    by (cases "MemoryMap_ctor {} 0 cap {MAP_PRIVATE, MAP_ANONYMOUS, MAP_NORESERVE} None 0 w") auto
  have f1: "w_files w1 = w_files w" using m by (rule MemoryMap_ctor_files)
  show ?thesis
  proof (cases mr)
    case (Inl e)
    then show ?thesis using c m f1 by (auto simp: ResizableMappedFile_ctor_def)
  next
    case (Inr reserved)
    have sz: "mm_size reserved = cap"
      using m Inr by (auto simp: MemoryMap_ctor_def split: prod.splits option.splits)
    obtain fr w2 where o: "FileDescriptor_ctor path {O_CREAT, O_RDWR} w1 = (fr, w2)"
      by (cases "FileDescriptor_ctor path {O_CREAT, O_RDWR} w1") auto
    have f2: "w_files w2 = w_files w \<and> (\<forall>fd. fr = Inr fd \<longrightarrow> fd_path fd = path)"
      using FileDescriptor_ctor_existing[OF _ o, of bs] f f1 by simp
    show ?thesis
    proof (cases fr)
      case (Inl e)
      then show ?thesis using c m \<open>mr = Inr reserved\<close> o f2
        by (auto simp: ResizableMappedFile_ctor_def dest!: unwind_reserved_files)
    next
      case (Inr fd)
      obtain sr w3 where s: "FileDescriptor_size fd w2 = (sr, w3)"
        by (cases "FileDescriptor_size fd w2") auto
      have f3: "w_files w3 = w_files w" using s f2 by (auto dest!: FileDescriptor_size_frame)
      show ?thesis
      proof (cases sr)
        case (Inl e)
        then show ?thesis using c m \<open>mr = Inr reserved\<close> o \<open>fr = Inr fd\<close> s f3
          by (auto simp: ResizableMappedFile_ctor_def dest!: unwind_reserved_files)
      next
        case (Inr n)
        have "n = length bs"
          using FileDescriptor_size_value[of fd w2 n w3] s Inr f2 \<open>fr = Inr fd\<close> f by auto
        then have "throwIfAbove n (mm_size reserved) = Inl bad_alloc"
          using lt sz by (simp add: throwIfAbove_def)
        then show ?thesis using c m \<open>mr = Inr reserved\<close> o \<open>fr = Inr fd\<close> s Inr f3
          by (auto simp: ResizableMappedFile_ctor_def dest!: unwind_reserved_files)
      qed
    qed
  qed
qed

lemma rmf_ctor_oversized_bad_alloc:
  assumes f: "w_files w path = Some bs" and lt: "cap < length bs"
    and ok: "os_ok w" and nf: "w_faults w = []" and pos: "0 < cap"
    and room: "w_brk w + page_ceil (w_pagesize w) cap \<le> w_top w"
  shows "fst (ResizableMappedFile_ctor path cap w) = Inl bad_alloc"
  using assms
  by (auto simp: ResizableMappedFile_ctor_def MemoryMap_ctor_def os_mmap_def take_fault_none
                 FileDescriptor_ctor_def os_open_def FileDescriptor_size_def os_fstat_size_def
                 throwIfAbove_def unwind_reserved_def MemoryMap_dtor_def MemoryMap_unmap_def
                 os_munmap_def Let_def os_ok_def)

lemma unwind_reserved_cases:
  "(MemoryMap_dtor m v = (None, v') \<longrightarrow> unwind_reserved m e v = (Inl e, v')) \<and>
   (MemoryMap_dtor m v = (Some t, v') \<longrightarrow> unwind_reserved m e v = (Inl terminated, v'))"
  by (auto simp: unwind_reserved_def MemoryMap_dtor_def split: prod.splits option.splits)

lemma rmf_ctor_oversized_steps:
  assumes f: "w_files w path = Some bs" and lt: "cap < length bs"
  shows "(MemoryMap_ctor {} 0 cap {MAP_PRIVATE, MAP_ANONYMOUS, MAP_NORESERVE} None 0 w = (Inl e, w1) \<longrightarrow>
            ResizableMappedFile_ctor path cap w = (Inl mapping_error, w1)) \<and>
         (MemoryMap_ctor {} 0 cap {MAP_PRIVATE, MAP_ANONYMOUS, MAP_NORESERVE} None 0 w = (Inr m, w1) \<and>
          FileDescriptor_ctor path {O_CREAT, O_RDWR} w1 = (Inl e2, w2) \<longrightarrow>
            ResizableMappedFile_ctor path cap w = unwind_reserved m mapped_file_error w2) \<and>
         (MemoryMap_ctor {} 0 cap {MAP_PRIVATE, MAP_ANONYMOUS, MAP_NORESERVE} None 0 w = (Inr m, w1) \<and>
          FileDescriptor_ctor path {O_CREAT, O_RDWR} w1 = (Inr fd, w2) \<and>
          FileDescriptor_size fd w2 = (Inl e3, w3) \<longrightarrow>
            ResizableMappedFile_ctor path cap w = unwind_reserved m mapping_error w3) \<and>
         (MemoryMap_ctor {} 0 cap {MAP_PRIVATE, MAP_ANONYMOUS, MAP_NORESERVE} None 0 w = (Inr m, w1) \<and>
          FileDescriptor_ctor path {O_CREAT, O_RDWR} w1 = (Inr fd, w2) \<and>
          FileDescriptor_size fd w2 = (Inr n, w3) \<longrightarrow>
            ResizableMappedFile_ctor path cap w = unwind_reserved m bad_alloc w3)"
proof (intro conjI impI; (elim conjE)?)
  assume "MemoryMap_ctor {} 0 cap {MAP_PRIVATE, MAP_ANONYMOUS, MAP_NORESERVE} None 0 w = (Inl e, w1)"
  then show "ResizableMappedFile_ctor path cap w = (Inl mapping_error, w1)"
    by (auto simp: ResizableMappedFile_ctor_def MemoryMap_ctor_def split: prod.splits option.splits)
next
  assume m: "MemoryMap_ctor {} 0 cap {MAP_PRIVATE, MAP_ANONYMOUS, MAP_NORESERVE} None 0 w = (Inr m, w1)"
    and o: "FileDescriptor_ctor path {O_CREAT, O_RDWR} w1 = (Inl e2, w2)"
  have "e2 = mapped_file_error"
    using o by (auto simp: FileDescriptor_ctor_def split: prod.splits option.splits)
  then show "ResizableMappedFile_ctor path cap w = unwind_reserved m mapped_file_error w2"
    using m o by (simp add: ResizableMappedFile_ctor_def)
next
  assume m: "MemoryMap_ctor {} 0 cap {MAP_PRIVATE, MAP_ANONYMOUS, MAP_NORESERVE} None 0 w = (Inr m, w1)"
    and o: "FileDescriptor_ctor path {O_CREAT, O_RDWR} w1 = (Inr fd, w2)"
    and s: "FileDescriptor_size fd w2 = (Inl e3, w3)"
  have "e3 = mapping_error"
    using s by (auto simp: FileDescriptor_size_def split: prod.splits option.splits)
  then show "ResizableMappedFile_ctor path cap w = unwind_reserved m mapping_error w3"
    using m o s by (simp add: ResizableMappedFile_ctor_def)
next
  assume m: "MemoryMap_ctor {} 0 cap {MAP_PRIVATE, MAP_ANONYMOUS, MAP_NORESERVE} None 0 w = (Inr m, w1)"
    and o: "FileDescriptor_ctor path {O_CREAT, O_RDWR} w1 = (Inr fd, w2)"
    and s: "FileDescriptor_size fd w2 = (Inr n, w3)"
  have sz: "mm_size m = cap"
    using m by (auto simp: MemoryMap_ctor_def split: prod.splits option.splits)
  have f1: "w_files w1 = w_files w" using m by (rule MemoryMap_ctor_files)
  have f2: "w_files w2 = w_files w \<and> fd_path fd = path"
    using FileDescriptor_ctor_existing[OF _ o, of bs] f f1 by simp
  have "n = length bs" using FileDescriptor_size_value[OF s] f2 f by auto
  then have "throwIfAbove n (mm_size m) = Inl bad_alloc"
    using lt sz by (simp add: throwIfAbove_def)
  then show "ResizableMappedFile_ctor path cap w = unwind_reserved m bad_alloc w3"
    using m o s by (simp add: ResizableMappedFile_ctor_def)
qed

lemma rmf_ctor_zero_capacity:
  "fst (ResizableMappedFile_ctor path 0 w) = Inl mapping_error"
  by (auto simp: ResizableMappedFile_ctor_def MemoryMap_ctor_def os_mmap_def Let_def
           split: prod.splits)

lemma view_ok_cong:
  assumes "view_ok w r" and "w_pages w' = w_pages w" and "w_pagesize w' = w_pagesize w"
  shows "view_ok w' r"
  using assms by (auto simp: view_ok_def page_count_def split: option.splits)

lemma ResizableMappedFile_map_view:
  assumes "ResizableMappedFile_map sz r w = (e, r', w')"
  shows "view_ok w' r' \<or> e = Some terminated"
proof -
  obtain e1 r1 w1 where rs: "reset_mapped r w = (e1, r1, w1)"
    by (cases "reset_mapped r w") auto
  show ?thesis
  proof (cases e1)
    case (Some t)
    then have "e = Some terminated"
      using assms rs
      by (auto simp: ResizableMappedFile_map_def reset_mapped_def MemoryMap_dtor_def
               split: option.splits prod.splits)
    then show ?thesis by simp
  next
    case None
    then have n1: "rmf_mapped r1 = None"
      using rs by (auto simp: reset_mapped_def split: option.splits prod.splits)
    obtain res w2 where c: "MemoryMap_ctor {PROT_READ, PROT_WRITE} (mm_address (rmf_reserved r1)) sz
                  {MAP_FIXED, MAP_SHARED} (Some (rmf_file r1)) 0 w1 = (res, w2)"
      by (cases "MemoryMap_ctor {PROT_READ, PROT_WRITE} (mm_address (rmf_reserved r1)) sz
                  {MAP_FIXED, MAP_SHARED} (Some (rmf_file r1)) 0 w1") auto
    show ?thesis
    proof (cases res)
      case (Inl t)
      then have "r' = r1" using assms rs None c by (auto simp: ResizableMappedFile_map_def)
      then show ?thesis using n1 by (simp add: view_ok_def)
    next
      case (Inr m)
      then obtain a where mm: "os_mmap (mm_address (rmf_reserved r1)) sz {PROT_READ, PROT_WRITE}
                  {MAP_FIXED, MAP_SHARED} (Some (rmf_file r1)) 0 w1 = (Some a, w2)"
        and m: "m = \<lparr>mm_prot = {PROT_READ, PROT_WRITE}, mm_size = sz, mm_address = a, mm_fixed = True\<rparr>"
        using c by (auto simp: MemoryMap_ctor_def split: prod.splits option.splits)
      have r': "r' = r1\<lparr>rmf_mapped := Some m\<rparr> \<and> w' = w2"
        using assms rs None c Inr by (auto simp: ResizableMappedFile_map_def)
      have ps: "w_pagesize w2 = w_pagesize w1" using mm by (auto dest!: os_mmap_frame)
      have "view_ok w2 (r1\<lparr>rmf_mapped := Some m\<rparr>)"
        using os_mmap_shared_pages[OF mm] ps by (auto simp: view_ok_def m page_count_def)
      then show ?thesis using r' by simp
    qed
  qed
qed

lemma rmf_resize_view:
  assumes "view_ok w r" and "ResizableMappedFile_resize n r w = (e, r', w')"
  shows "view_ok w' r' \<or> e = Some terminated"
proof (cases "n \<le> mm_size (rmf_reserved r)")
  case False
  then show ?thesis using assms
    by (auto simp: ResizableMappedFile_resize_def throwIfAbove_def)
next
  case True
  obtain e1 r1 w1 where rs: "reset_mapped r w = (e1, r1, w1)"
    by (cases "reset_mapped r w") auto
  show ?thesis
  proof (cases e1)
    case (Some t)
    then have "e = Some terminated"
      using assms(2) rs True
      by (auto simp: ResizableMappedFile_resize_def throwIfAbove_def reset_mapped_def
                     MemoryMap_dtor_def split: option.splits prod.splits)
    then show ?thesis by simp
  next
    case None
    then have n1: "rmf_mapped r1 = None"
      using rs by (auto simp: reset_mapped_def split: option.splits prod.splits)
    obtain e2 w2 where t: "FileDescriptor_truncate (rmf_file r1) n w1 = (e2, w2)"
      by (cases "FileDescriptor_truncate (rmf_file r1) n w1") auto
    show ?thesis
    proof (cases "e2 = None \<and> n \<noteq> 0")
      case False
      then have "r' = r1" using assms(2) rs True None t
        by (auto simp: ResizableMappedFile_resize_def throwIfAbove_def split: option.splits)
      then show ?thesis using n1 by (simp add: view_ok_def)
    next
      case True
      then have "ResizableMappedFile_map n r1 w2 = (e, r', w')"
        using assms(2) rs \<open>n \<le> mm_size (rmf_reserved r)\<close> None t
        by (auto simp: ResizableMappedFile_resize_def throwIfAbove_def)
      then show ?thesis by (rule ResizableMappedFile_map_view)
    qed
  qed
qed

lemma rmf_ctor_view:
  assumes "ResizableMappedFile_ctor path cap w0 = (Inr r, w)"
  shows "view_ok w r"
proof -
  have "rmf_mapped r = None \<or> (\<exists>sz r0 w3. ResizableMappedFile_map sz r0 w3 = (None, r, w))"
    using assms
    by (auto simp: ResizableMappedFile_ctor_def unwind_reserved_def Let_def
             split: prod.splits sum.splits option.splits if_splits)
  then show ?thesis
  proof
    assume "rmf_mapped r = None"
    then show ?thesis by (simp add: view_ok_def)
  next
    assume "\<exists>sz r0 w3. ResizableMappedFile_map sz r0 w3 = (None, r, w)"
    then obtain sz r0 w3 where "ResizableMappedFile_map sz r0 w3 = (None, r, w)" by blast
    from ResizableMappedFile_map_view[OF this] show ?thesis by simp
  qed
qed

lemma run_file_view:
  "view_ok w r \<Longrightarrow> run_file acts r w = Some (r', w') \<Longrightarrow> view_ok w' r'"
proof (induction acts arbitrary: r w)
  case Nil
  then show ?case by simp
next
  case (Cons a acts)
  show ?case
  proof (cases a)
    case (Resize n)
    obtain e r1 w1 where s: "ResizableMappedFile_resize n r w = (e, r1, w1)"
      by (cases "ResizableMappedFile_resize n r w") auto
    have ne: "e \<noteq> Some terminated" and run: "run_file acts r1 w1 = Some (r', w')"
      using Cons.prems(2) s Resize by (auto split: option.splits error.splits)
    have "view_ok w1 r1" using rmf_resize_view[OF Cons.prems(1) s] ne by simp
    from Cons.IH[OF this run] show ?thesis .
  next
    case (Store x b)
    obtain w1 where p: "poke x b w = Some w1" and run: "run_file acts r w1 = Some (r', w')"
      using Cons.prems(2) Store by (auto split: option.splits)
    have "w_pages w1 = w_pages w" and "w_pagesize w1 = w_pagesize w"
      using p by (auto dest!: poke_frame)
    with Cons.prems(1) have "view_ok w1 r" by (rule view_ok_cong)
    from Cons.IH[OF this run] show ?thesis .
  qed
qed

lemma file_session_view:
  assumes "file_session path cap acts w0 = Some (r, w)"
  shows "view_ok w r"
proof -
  obtain r0 w1 where c: "ResizableMappedFile_ctor path cap w0 = (Inr r0, w1)"
    and run: "run_file acts r0 w1 = Some (r, w)"
    using assms by (auto simp: file_session_def split: prod.splits sum.splits)
  have "view_ok w1 r0" using c by (rule rmf_ctor_view)
  then show ?thesis using run by (rule run_file_view)
qed

lemma sync_flush:
  assumes inv: "rmf_inv (w_pagesize w) r" and view: "view_ok w r"
    and b: "offset + len \<le> ResizableMappedFile_size r"
  shows "(w_faults w = [] \<longrightarrow> fst (ResizableMappedFile_sync offset len r w) = None) \<and>
         (\<forall>w'. ResizableMappedFile_sync offset len r w = (None, w') \<longrightarrow>
                w_files w' = w_files w \<and>
                (\<forall>k. offset \<le> k \<and> k < offset + len \<longrightarrow> \<not> w_dirty w' (fd_path (rmf_file r)) k))"
proof (cases "rmf_mapped r")
  case None
  then have "offset = 0 \<and> len = 0" using b by (simp add: ResizableMappedFile_size_def)
  then show ?thesis using None b
    by (auto simp: ResizableMappedFile_sync_def)
next
  case (Some m)
  let ?ps = "w_pagesize w" and ?base = "mm_address m"
  let ?A = "page_floor ?ps (?base + offset)" and ?L = "len + (?base + offset) mod ?ps"
  let ?f = "fd_path (rmf_file r)"
  have ps: "0 < ?ps" and al: "?base mod ?ps = 0"
    using inv Some by (auto simp: rmf_inv_def reservation_ok_def)
  have sz: "offset + len \<le> mm_size m" using b Some by (simp add: ResizableMappedFile_size_def)
  have A0: "?A mod ?ps = 0" by (simp add: page_floor_def)
  have Ad: "?A div ?ps = ?base div ?ps + offset div ?ps"
    using ps page_index[OF ps al, of offset] by (simp add: page_floor_def)
  have Lm: "?L = len + offset mod ?ps" using page_offset[OF al, of offset] by simp
  have pc: "page_count w ?L = (len + offset mod ?ps + ?ps - 1) div ?ps"
    by (simp only: page_count_def Lm)
  have pages: "\<And>p. ?A div ?ps \<le> p \<Longrightarrow> p < ?A div ?ps + page_count w ?L \<Longrightarrow>
                 w_pages w p = Some \<lparr>pg_prot = {PROT_READ, PROT_WRITE},
                                     pg_back = Shared ?f ((p - ?base div ?ps) * ?ps)\<rparr>"
  proof -
    fix p assume lo: "?A div ?ps \<le> p" and hi: "p < ?A div ?ps + page_count w ?L"
    have "p < ?base div ?ps + (mm_size m + ?ps - 1) div ?ps"
      using hi view_bound[OF ps sz] by (simp add: Ad pc)
    then have "in_range (?base div ?ps) (page_count w (mm_size m)) p"
      using lo by (simp add: in_range_def page_count_def Ad)
    then show "w_pages w p = Some \<lparr>pg_prot = {PROT_READ, PROT_WRITE},
                                     pg_back = Shared ?f ((p - ?base div ?ps) * ?ps)\<rparr>"
      using view Some by (simp add: view_ok_def)
  qed
  have mapped: "pages_mapped w ?A ?L"
    using pages by (auto simp: pages_mapped_def first_page_def list_all_iff)
  have s: "ResizableMappedFile_sync offset len r w =
             (case os_msync ?A ?L w of (False, w') \<Rightarrow> (Some mapping_error, w')
              | (True, w') \<Rightarrow> (None, w'))"
    using b Some by (simp add: ResizableMappedFile_sync_def pageSize_def)
  have 1: "w_faults w = [] \<longrightarrow> fst (ResizableMappedFile_sync offset len r w) = None"
    using A0 mapped by (auto simp: s os_msync_def take_fault_none Let_def)
  have 2: "\<forall>w'. ResizableMappedFile_sync offset len r w = (None, w') \<longrightarrow>
                w_files w' = w_files w \<and>
                (\<forall>k. offset \<le> k \<and> k < offset + len \<longrightarrow> \<not> w_dirty w' ?f k)"
  proof (intro allI impI conjI; (elim conjE)?)
    fix w' assume r: "ResizableMappedFile_sync offset len r w = (None, w')"
    then have ms: "os_msync ?A ?L w = (True, w')"
      by (auto simp: s split: prod.splits bool.splits)
    show "w_files w' = w_files w" using ms by (auto dest!: os_msync_frame)
    fix k assume lo: "offset \<le> k" and hi: "k < offset + len"
    let ?p = "?base div ?ps + k div ?ps"
    have plo: "?A div ?ps \<le> ?p" using lo by (simp add: Ad div_le_mono)
    have phi: "?p < ?A div ?ps + page_count w ?L"
      using flush_range_upper[OF ps hi] by (simp add: Ad pc)
    have "w_pages w ?p = Some \<lparr>pg_prot = {PROT_READ, PROT_WRITE},
                                     pg_back = Shared ?f ((?p - ?base div ?ps) * ?ps)\<rparr>"
      using plo phi by (rule pages)
    moreover have "k div ?ps * ?ps \<le> k \<and> k < k div ?ps * ?ps + ?ps"
      using ps by (metis add.commute div_mult_mod_eq le_add1 mod_less_divisor nat_add_left_cancel_less)
    ultimately have "page_holds w ?p ?f k"
      by (simp add: page_holds_def in_range_def)
    then show "\<not> w_dirty w' ?f k"
      using os_msync_clean[OF ms plo phi] by simp
  qed
  show ?thesis using 1 2 by blast
qed


section \<open>Evaluating the examples\<close>

text \<open>The examples are evaluated by unfolding the definitions. The two fixture objects
  are what the constructors build on the empty host, and with \<^verbatim>\<open>MAP_SHARED\<close> the stores of
  the writable test do reach the file.\<close>

lemmas os_defs = os_mmap_def os_munmap_def os_mprotect_def os_madvise_dontneed_def os_msync_def
  os_open_def os_fstat_size_def os_ftruncate_def take_fault_def pages_mapped_def pages_free_def
  first_page_def page_count_def page_ceil_def page_floor_def in_range_def file_byte_def
  page_holds_def peek_def poke_def Let_def

lemmas lib_defs = pageSize_def FileDescriptor_ctor_def FileDescriptor_size_def
  FileDescriptor_truncate_def MemoryMap_ctor_def MemoryMap_sync_def MemoryMap_unmap_def
  MemoryMap_dtor_def MappedFile_ctor_def MappedFile_open_def MappedFile_data_def
  MappedFile_size_def MappedFile_dtor_def throwIfAbove_def ResizableMappedFile_data_def
  ResizableMappedFile_size_def ResizableMappedFile_capacity_def reset_mapped_def
  ResizableMappedFile_map_def unwind_reserved_def ResizableMappedFile_ctor_def
  ResizableMappedFile_resize_def ResizableMappedMemory_data_def ResizableMappedMemory_size_def
  ResizableMappedMemory_capacity_def newMappedSize_def ResizableMappedMemory_resize_def
  ResizableMappedMemory_ctor_def ResizableMappedFile_sync_def memory_session_def
  file_session_def Writable_test_def

lemmas world_defs = world0_def world_test_def world_t2_def world_empty_def

lemma rf_t2_constructed: "fst (ResizableMappedFile_ctor ''t2'' 1500 world0) = Inr rf_t2"
  by (simp add: os_defs lib_defs world_defs rf_t2_def)

lemma rm_10000_constructed: "fst (ResizableMappedMemory_ctor 0 10000 world0) = Inr rm_10000"
  by (simp add: os_defs lib_defs world_defs rm_10000_def)

lemma os_ok_world0: "os_ok world0"
  by (simp add: os_ok_def world0_def)

lemma os_ok_world_t2: "os_ok world_t2"
  by (simp add: os_ok_def world_t2_def world0_def)

lemma os_ok_world_test: "os_ok world_test"
  by (simp add: os_ok_def world_test_def world0_def)

lemma Writable_test_shared_persists:
  "Writable_test_shared ''test.dat'' [123, 0, 0, 0] world_test = Some [123, 0, 0, 0]"
  by (simp add: Writable_test_shared_def os_defs lib_defs world_defs)

lemma rmf_ctor_release_fails:
  "fst (ResizableMappedFile_ctor ''t2'' 1499 (world_t2\<lparr>w_faults := [False, False, False, True]\<rparr>))
     = Inl terminated"
  by (simp add: os_defs lib_defs world_defs)

section \<open>The claims\<close>

text \<open>
  C2. File-size agreement: whenever \<^verbatim>\<open>resize(n)\<close> of a resizable file returns without
  an exception, the backing file has length \<open>n\<close> at that moment. This holds for every
  object and every state of the host.
\<close>

theorem file_size_agreement:
  assumes "ResizableMappedFile_resize n r w = (None, r', w')"
  shows "map_option length (w_files w' (fd_path (rmf_file r'))) = Some n"
  using assms
  by (auto simp: ResizableMappedFile_resize_def throwIfAbove_def
           split: sum.splits prod.splits option.splits if_splits
           dest!: reset_mapped_files ResizableMappedFile_map_files FileDescriptor_truncate_length)

theorem file_size_agreement_witness:
  "fst (ResizableMappedFile_resize 13 rf_t2 (snd (ResizableMappedFile_ctor ''t2'' 1500 world0))) = None \<and>
   map_option length
     (w_files (snd (snd (ResizableMappedFile_resize 13 rf_t2
                           (snd (ResizableMappedFile_ctor ''t2'' 1500 world0))))) ''t2'') = Some 13"
proof -
  let ?X = "ResizableMappedFile_resize 13 rf_t2 (snd (ResizableMappedFile_ctor ''t2'' 1500 world0))"
  have ok: "fst ?X = None"
    by (simp add: os_defs lib_defs world_defs rf_t2_def)
  then have h: "?X = (None, fst (snd ?X), snd (snd ?X))"
    by (simp add: prod_eq_iff)
  have r: "rmf_file (fst (snd ?X)) = \<lparr>fd_path = ''t2'', fd_rdwr = True\<rparr>"
    by (simp add: os_defs lib_defs world_defs rf_t2_def)
  show ?thesis using ok file_size_agreement[OF h] r by simp
qed

text \<open>
  C3. Capacity enforcement, atomically: a \<^verbatim>\<open>resize(n)\<close> with \<open>n\<close> above the capacity
  throws \<^verbatim>\<open>std::bad_alloc\<close> and leaves the object and the host exactly as they were
  (hence \<^verbatim>\<open>data()\<close>, \<^verbatim>\<open>size()\<close>, \<^verbatim>\<open>capacity()\<close> and the file), for the file-backed
  and for the anonymous variant.
\<close>

theorem capacity_enforcement:
  "(ResizableMappedFile_capacity rf < n \<longrightarrow>
      ResizableMappedFile_resize n rf w = (Some bad_alloc, rf, w)) \<and>
   (ResizableMappedMemory_capacity rm < n' \<longrightarrow>
      ResizableMappedMemory_resize n' rm w' = (Some bad_alloc, rm, w'))"
  by (simp add: ResizableMappedFile_resize_def ResizableMappedFile_capacity_def throwIfAbove_def
                ResizableMappedMemory_resize_def)

theorem capacity_enforcement_witness:
  "ResizableMappedFile_capacity rf_t2 < 1501 \<and>
   ResizableMappedFile_resize 1501 rf_t2 world0 = (Some bad_alloc, rf_t2, world0) \<and>
   ResizableMappedMemory_capacity rm_10000 < 10001 \<and>
   ResizableMappedMemory_resize 10001 rm_10000 world0 = (Some bad_alloc, rm_10000, world0)"
proof -
  have a: "ResizableMappedFile_capacity rf_t2 < 1501"
    by (simp add: ResizableMappedFile_capacity_def rf_t2_def)
  have b: "ResizableMappedMemory_capacity rm_10000 < 10001"
    by (simp add: ResizableMappedMemory_capacity_def rm_10000_def)
  show ?thesis
    using a b capacity_enforcement[of rf_t2 1501 world0 rm_10000 10001 world0] by simp
qed

text \<open>
  C7 (as amended). Page-granular commitment of a \<^verbatim>\<open>ResizableMappedMemory\<close>: after
  construction and after any run of resizes and stores, \<open>mapped_size\<close> is the size
  rounded up to a whole number of pages, so \<open>size \<le> mapped_size\<close> and the page size
  divides \<open>mapped_size\<close>; \<open>mapped_size\<close> is at most the \<^emph>\<open>capacity rounded up to a
  page\<close> (at most the capacity itself when the page size divides it); construction
  leaves \<open>size = initialSize\<close> and a successful \<^verbatim>\<open>resize(n)\<close> leaves \<open>size = n\<close>; and a
  \<^verbatim>\<open>resize(n)\<close> that keeps the page-rounded size changes the size field only, issuing
  no system call. As long as no \<^verbatim>\<open>resize\<close> of the object has failed in a system call,
  \<open>mapped_size\<close> is the committed length: the pages of the reservation below
  \<open>base + mapped_size\<close> are readable and writable and its other pages are inaccessible
  (\<open>commit_ok\<close>); a \<^verbatim>\<open>resize\<close> that returns, or throws \<^verbatim>\<open>std::bad_alloc\<close>, keeps it so; and
  then every byte of \<open>[base, base + mapped_size)\<close> can be loaded and stored, and every
  byte from there to the end of the reservation's last page faults.
\<close>

theorem commitment_invariant:
  assumes "os_ok w0" and "memory_session init cap acts w0 = Some (r, w)"
  shows "rmm_mappedSize r = page_ceil (pageSize w) (rmm_size r) \<and>
         rmm_size r \<le> rmm_mappedSize r \<and>
         rmm_mappedSize r \<le> page_ceil (pageSize w) (ResizableMappedMemory_capacity r) \<and>
         rmm_mappedSize r mod pageSize w = 0 \<and>
         (ResizableMappedMemory_capacity r mod pageSize w = 0 \<longrightarrow>
            rmm_mappedSize r \<le> ResizableMappedMemory_capacity r) \<and>
         (acts = [] \<longrightarrow> rmm_size r = init) \<and>
         (\<forall>n r' w'. ResizableMappedMemory_resize n r w = (None, r', w') \<longrightarrow>
            rmm_size r' = n \<and> rmm_mappedSize r' = page_ceil (pageSize w') n) \<and>
         (\<forall>n. n \<le> ResizableMappedMemory_capacity r \<and>
               page_ceil (pageSize w) n = rmm_mappedSize r \<longrightarrow>
            ResizableMappedMemory_resize n r w = (None, r\<lparr>rmm_size := n\<rparr>, w)) \<and>
         (session_clean init cap acts w0 \<longrightarrow> commit_ok w r) \<and>
         (\<forall>n e r' w'. commit_ok w r \<and> ResizableMappedMemory_resize n r w = (e, r', w') \<and>
                      (e = None \<or> e = Some bad_alloc) \<longrightarrow> commit_ok w' r') \<and>
         (\<forall>x b. commit_ok w r \<longrightarrow>
            (x < rmm_mappedSize r \<longrightarrow>
               peek w (mm_address (rmm_reserved r) + x)
                 = Some (w_mem w (mm_address (rmm_reserved r) + x)) \<and>
               poke (mm_address (rmm_reserved r) + x) b w \<noteq> None) \<and>
            (rmm_mappedSize r \<le> x \<and>
             x < page_ceil (pageSize w) (ResizableMappedMemory_capacity r) \<longrightarrow>
               peek w (mm_address (rmm_reserved r) + x) = None \<and>
               poke (mm_address (rmm_reserved r) + x) b w = None))"
proof -
  have inv: "rmm_inv (w_pagesize w) r" and cap: "mm_size (rmm_reserved r) = cap"
    using memory_session_inv[OF assms] by auto
  have ps: "0 < w_pagesize w" and b: "w_pagesize w \<le> mm_address (rmm_reserved r)"
    and c: "mm_address (rmm_reserved r) + page_ceil (w_pagesize w) (mm_size (rmm_reserved r)) \<le> 2 ^ 64"
    and sz: "rmm_size r \<le> mm_size (rmm_reserved r)"
    and ms: "rmm_mappedSize r = page_ceil (w_pagesize w) (rmm_size r)"
    using inv by (auto simp: rmm_inv_def reservation_ok_def)
  have 1: "rmm_size r \<le> rmm_mappedSize r" using ps ms by (simp add: page_ceil_ge)
  have 2: "rmm_mappedSize r \<le> page_ceil (w_pagesize w) (mm_size (rmm_reserved r))"
    using sz ms by (simp add: page_ceil_mono)
  have 3: "rmm_mappedSize r mod w_pagesize w = 0" using ms by (simp add: page_ceil_mod)
  have 4: "mm_size (rmm_reserved r) mod w_pagesize w = 0 \<longrightarrow>
             rmm_mappedSize r \<le> mm_size (rmm_reserved r)"
    using 2 ps by (auto simp: page_ceil_dvd)
  have 5: "acts = [] \<longrightarrow> rmm_size r = init"
  proof
    assume "acts = []"
    then have "ResizableMappedMemory_ctor init cap w0 = (Inr r, w)"
      using assms(2) by (auto simp: memory_session_def split: prod.splits sum.splits)
    from rmm_ctor_inv[OF assms(1) this] show "rmm_size r = init" by simp
  qed
  have 6: "\<forall>n r' w'. ResizableMappedMemory_resize n r w = (None, r', w') \<longrightarrow>
            rmm_size r' = n \<and> rmm_mappedSize r' = page_ceil (pageSize w') n"
  proof (intro allI impI)
    fix n r' w' assume s: "ResizableMappedMemory_resize n r w = (None, r', w')"
    from rmm_resize_inv[OF inv s]
    show "rmm_size r' = n \<and> rmm_mappedSize r' = page_ceil (pageSize w') n"
      by (auto simp: rmm_inv_def pageSize_def)
  qed
  have 7: "\<forall>n. n \<le> ResizableMappedMemory_capacity r \<and>
               page_ceil (pageSize w) n = rmm_mappedSize r \<longrightarrow>
            ResizableMappedMemory_resize n r w = (None, r\<lparr>rmm_size := n\<rparr>, w)"
  proof (intro allI impI)
    fix n assume h: "n \<le> ResizableMappedMemory_capacity r \<and>
               page_ceil (pageSize w) n = rmm_mappedSize r"
    then have le: "n \<le> mm_size (rmm_reserved r)" by (simp add: ResizableMappedMemory_capacity_def)
    have new: "newMappedSize (w_pagesize w) n = page_ceil (w_pagesize w) n"
      using ps le b c by (intro newMappedSize_eq[where cap = "mm_size (rmm_reserved r)"]) auto
    show "ResizableMappedMemory_resize n r w = (None, r\<lparr>rmm_size := n\<rparr>, w)"
      using h le
      by (simp add: ResizableMappedMemory_resize_def ResizableMappedMemory_capacity_def
                    Let_def pageSize_def new)
  qed
  have 8: "session_clean init cap acts w0 \<longrightarrow> commit_ok w r"
    using memory_session_commit[OF assms] by blast
  have 9: "\<forall>n e r' w'. commit_ok w r \<and> ResizableMappedMemory_resize n r w = (e, r', w') \<and>
                      (e = None \<or> e = Some bad_alloc) \<longrightarrow> commit_ok w' r'"
    using rmm_resize_clean_commit[OF inv] by blast
  have 10: "\<forall>x b. commit_ok w r \<longrightarrow>
            (x < rmm_mappedSize r \<longrightarrow>
               peek w (mm_address (rmm_reserved r) + x)
                 = Some (w_mem w (mm_address (rmm_reserved r) + x)) \<and>
               poke (mm_address (rmm_reserved r) + x) b w \<noteq> None) \<and>
            (rmm_mappedSize r \<le> x \<and>
             x < page_ceil (w_pagesize w) (mm_size (rmm_reserved r)) \<longrightarrow>
               peek w (mm_address (rmm_reserved r) + x) = None \<and>
               poke (mm_address (rmm_reserved r) + x) b w = None)"
  proof (intro allI impI)
    fix x b assume co: "commit_ok w r"
    show "(x < rmm_mappedSize r \<longrightarrow>
               peek w (mm_address (rmm_reserved r) + x)
                 = Some (w_mem w (mm_address (rmm_reserved r) + x)) \<and>
               poke (mm_address (rmm_reserved r) + x) b w \<noteq> None) \<and>
            (rmm_mappedSize r \<le> x \<and>
             x < page_ceil (w_pagesize w) (mm_size (rmm_reserved r)) \<longrightarrow>
               peek w (mm_address (rmm_reserved r) + x) = None \<and>
               poke (mm_address (rmm_reserved r) + x) b w = None)"
      using inv co by (rule commit_ok_access)
  qed
  show ?thesis
    using ms 1 2 3 4 5 6 7 8 9 10
    by (simp only: pageSize_def ResizableMappedMemory_capacity_def)
qed

theorem commitment_invariant_witness:
  "os_ok world0 \<and> memory_session 0 10000 [Resize 13] world0 \<noteq> None \<and>
   rmm_size (fst (the (memory_session 0 10000 [Resize 13] world0))) = 13 \<and>
   rmm_mappedSize (fst (the (memory_session 0 10000 [Resize 13] world0))) =
     page_ceil (pageSize (snd (the (memory_session 0 10000 [Resize 13] world0))))
       (rmm_size (fst (the (memory_session 0 10000 [Resize 13] world0)))) \<and>
   rmm_size (fst (the (memory_session 0 10000 [Resize 13] world0)))
     \<le> rmm_mappedSize (fst (the (memory_session 0 10000 [Resize 13] world0))) \<and>
   session_clean 0 10000 [Resize 13] world0 \<and>
   commit_ok (snd (the (memory_session 0 10000 [Resize 13] world0)))
             (fst (the (memory_session 0 10000 [Resize 13] world0))) \<and>
   mm_address (rmm_reserved (fst (the (memory_session 0 10000 [Resize 13] world0)))) = 65536 \<and>
   rmm_mappedSize (fst (the (memory_session 0 10000 [Resize 13] world0))) = 4096 \<and>
   peek (snd (the (memory_session 0 10000 [Resize 13] world0))) (65536 + 4095) \<noteq> None \<and>
   poke (65536 + 4095) 7 (snd (the (memory_session 0 10000 [Resize 13] world0))) \<noteq> None \<and>
   peek (snd (the (memory_session 0 10000 [Resize 13] world0))) (65536 + 4096) = None \<and>
   poke (65536 + 4096) 7 (snd (the (memory_session 0 10000 [Resize 13] world0))) = None"
proof -
  let ?S = "memory_session 0 10000 [Resize 13] world0"
  have ok: "?S \<noteq> None" by (simp add: os_defs lib_defs world_defs)
  then have h: "?S = Some (fst (the ?S), snd (the ?S))" by auto
  have sz: "rmm_size (fst (the ?S)) = 13" by (simp add: os_defs lib_defs world_defs)
  have cl: "session_clean 0 10000 [Resize 13] world0"
    by (simp add: session_clean_def os_defs lib_defs world_defs)
  have base: "mm_address (rmm_reserved (fst (the ?S))) = 65536"
    by (simp add: os_defs lib_defs world_defs)
  have msz: "rmm_mappedSize (fst (the ?S)) = 4096"
    by (simp add: os_defs lib_defs world_defs)
  have pc: "page_ceil (pageSize (snd (the ?S))) (ResizableMappedMemory_capacity (fst (the ?S))) = 12288"
    by (simp add: os_defs lib_defs world_defs)
  note t = commitment_invariant[OF os_ok_world0 h]
  have a: "rmm_mappedSize (fst (the ?S)) = page_ceil (pageSize (snd (the ?S))) (rmm_size (fst (the ?S)))"
    using t by (rule conjunct1)
  have b: "rmm_size (fst (the ?S)) \<le> rmm_mappedSize (fst (the ?S))" using t by blast
  have co: "commit_ok (snd (the ?S)) (fst (the ?S))" using t cl by blast
  have acc: "\<And>x b. (x < rmm_mappedSize (fst (the ?S)) \<longrightarrow>
               peek (snd (the ?S)) (mm_address (rmm_reserved (fst (the ?S))) + x)
                 = Some (w_mem (snd (the ?S)) (mm_address (rmm_reserved (fst (the ?S))) + x)) \<and>
               poke (mm_address (rmm_reserved (fst (the ?S))) + x) b (snd (the ?S)) \<noteq> None) \<and>
            (rmm_mappedSize (fst (the ?S)) \<le> x \<and>
             x < page_ceil (pageSize (snd (the ?S))) (ResizableMappedMemory_capacity (fst (the ?S))) \<longrightarrow>
               peek (snd (the ?S)) (mm_address (rmm_reserved (fst (the ?S))) + x) = None \<and>
               poke (mm_address (rmm_reserved (fst (the ?S))) + x) b (snd (the ?S)) = None)"
    using t co by blast
  have p1: "peek (snd (the ?S)) (65536 + 4095) \<noteq> None \<and> poke (65536 + 4095) 7 (snd (the ?S)) \<noteq> None"
    using acc[of 4095 7] unfolding base msz by simp
  have p2: "peek (snd (the ?S)) (65536 + 4096) = None \<and> poke (65536 + 4096) 7 (snd (the ?S)) = None"
    using acc[of 4096 7] unfolding base msz pc by simp
  show ?thesis
    using os_ok_world0 ok sz a b cl co base msz p1 p2 by blast
qed

text \<open>The claim's bound \<open>mapped_size \<le> capacity\<close> fails when the capacity is not a
  multiple of the page size: the test's object of capacity 10000, resized to 10000
  with pages of 4096 bytes, commits 12288 bytes. And \<open>mapped_size\<close> is not the
  committed length after every successful \<^verbatim>\<open>resize\<close>: when the \<^verbatim>\<open>madvise\<close> of a shrinking
  \<^verbatim>\<open>resize(100)\<close> fails (the fourth system call of the run), the pages are already
  inaccessible and the fields still say 8192; the \<^verbatim>\<open>resize(8000)\<close> that follows returns
  without a system call, and the byte at offset 5000 of its 8000 faults.\<close>

theorem commitment_invariant_counterexample:
  "memory_session 0 10000 [Resize 10000] world0 \<noteq> None \<and>
   rmm_size (fst (the (memory_session 0 10000 [Resize 10000] world0))) = 10000 \<and>
   rmm_mappedSize (fst (the (memory_session 0 10000 [Resize 10000] world0))) = 12288 \<and>
   ResizableMappedMemory_capacity (fst (the (memory_session 0 10000 [Resize 10000] world0))) = 10000 \<and>
   \<not> rmm_mappedSize (fst (the (memory_session 0 10000 [Resize 10000] world0)))
       \<le> ResizableMappedMemory_capacity (fst (the (memory_session 0 10000 [Resize 10000] world0))) \<and>
   memory_session 0 10000 [Resize 8192, Resize 100]
       (world0\<lparr>w_faults := [False, False, False, True]\<rparr>) \<noteq> None \<and>
   fst (ResizableMappedMemory_resize 8000
          (fst (the (memory_session 0 10000 [Resize 8192, Resize 100]
                       (world0\<lparr>w_faults := [False, False, False, True]\<rparr>))))
          (snd (the (memory_session 0 10000 [Resize 8192, Resize 100]
                       (world0\<lparr>w_faults := [False, False, False, True]\<rparr>))))) = None \<and>
   memory_session 0 10000 [Resize 8192, Resize 100, Resize 8000]
       (world0\<lparr>w_faults := [False, False, False, True]\<rparr>) \<noteq> None \<and>
   rmm_size (fst (the (memory_session 0 10000 [Resize 8192, Resize 100, Resize 8000]
                         (world0\<lparr>w_faults := [False, False, False, True]\<rparr>)))) = 8000 \<and>
   rmm_mappedSize (fst (the (memory_session 0 10000 [Resize 8192, Resize 100, Resize 8000]
                               (world0\<lparr>w_faults := [False, False, False, True]\<rparr>)))) = 8192 \<and>
   mm_address (rmm_reserved (fst (the (memory_session 0 10000 [Resize 8192, Resize 100, Resize 8000]
                               (world0\<lparr>w_faults := [False, False, False, True]\<rparr>))))) = 65536 \<and>
   peek (snd (the (memory_session 0 10000 [Resize 8192, Resize 100, Resize 8000]
                     (world0\<lparr>w_faults := [False, False, False, True]\<rparr>)))) (65536 + 5000) = None \<and>
   \<not> commit_ok (snd (the (memory_session 0 10000 [Resize 8192, Resize 100, Resize 8000]
                             (world0\<lparr>w_faults := [False, False, False, True]\<rparr>))))
                (fst (the (memory_session 0 10000 [Resize 8192, Resize 100, Resize 8000]
                             (world0\<lparr>w_faults := [False, False, False, True]\<rparr>))))"
  by (simp add: commit_ok_def os_defs lib_defs world_defs)

text \<open>
  C10. For a \<^verbatim>\<open>ResizableMappedMemory\<close>, after construction and after any run of
  resizes and stores, \<^verbatim>\<open>data()\<close> is null exactly when \<^verbatim>\<open>size()\<close> is zero, and is the
  base address of the reservation (which is never null) when \<^verbatim>\<open>size()\<close> is positive. A
  successfully constructed \<^verbatim>\<open>ResizableMappedMemory(0, capacity)\<close> has a null
  \<^verbatim>\<open>data()\<close> and size zero, although the reservation of \<open>capacity\<close> bytes is mapped.
\<close>

theorem data_null_iff_empty:
  assumes "os_ok w0" and "memory_session init cap acts w0 = Some (r, w)"
  shows "(ResizableMappedMemory_data r = 0 \<longleftrightarrow> ResizableMappedMemory_size r = 0) \<and>
         (0 < ResizableMappedMemory_size r \<longrightarrow>
            ResizableMappedMemory_data r = mm_address (rmm_reserved r)) \<and>
         mm_address (rmm_reserved r) \<noteq> 0 \<and>
         (init = 0 \<and> acts = [] \<longrightarrow>
            ResizableMappedMemory_data r = 0 \<and> ResizableMappedMemory_size r = 0 \<and>
            ResizableMappedMemory_capacity r = cap \<and>
            pages_mapped w (mm_address (rmm_reserved r)) cap)"
proof -
  have inv: "rmm_inv (w_pagesize w) r" and cap: "mm_size (rmm_reserved r) = cap"
    using memory_session_inv[OF assms] by auto
  have base: "mm_address (rmm_reserved r) \<noteq> 0"
    using inv by (auto simp: rmm_inv_def reservation_ok_def)
  have fresh: "init = 0 \<and> acts = [] \<longrightarrow>
            ResizableMappedMemory_size r = 0 \<and> pages_mapped w (mm_address (rmm_reserved r)) cap"
  proof
    assume h: "init = 0 \<and> acts = []"
    then have c: "ResizableMappedMemory_ctor 0 cap w0 = (Inr r, w)"
      using assms(2) by (auto simp: memory_session_def split: prod.splits sum.splits)
    have sz: "rmm_size r = 0" using rmm_ctor_inv[OF assms(1) c] by simp
    obtain m w1 where m: "MemoryMap_ctor {} 0 cap {MAP_PRIVATE, MAP_ANONYMOUS, MAP_NORESERVE} None 0 w0 = (Inr m, w1)"
      and rs: "ResizableMappedMemory_resize 0 \<lparr>rmm_reserved = m, rmm_size = 0, rmm_mappedSize = 0\<rparr> w1 = (None, r, w)"
      using c
      by (auto simp: ResizableMappedMemory_ctor_def unwind_reserved_def
               split: prod.splits sum.splits option.splits)
    have rok: "reservation_ok (w_pagesize w0) m" and pse: "w_pagesize w1 = w_pagesize w0"
      and msz: "mm_size m = cap"
      using reserve_ok[OF assms(1) m] by auto
    have ps: "0 < w_pagesize w1"
      and bnd: "w_pagesize w1 + page_ceil (w_pagesize w1) cap \<le> 2 ^ 64"
      using rok pse msz by (auto simp: reservation_ok_def)
    have "newMappedSize (w_pagesize w1) 0 = page_ceil (w_pagesize w1) 0"
      using ps _ bnd by (rule newMappedSize_eq) simp
    then have new: "newMappedSize (w_pagesize w1) 0 = 0"
      using ps by (simp add: page_ceil_zero)
    have same: "w = w1 \<and> rmm_reserved r = m"
      using rs by (auto simp: ResizableMappedMemory_resize_def Let_def pageSize_def new)
    obtain a where mm: "os_mmap 0 cap {} {MAP_PRIVATE, MAP_ANONYMOUS, MAP_NORESERVE} None 0 w0 = (Some a, w1)"
      and a: "mm_address m = a"
      using m by (auto simp: MemoryMap_ctor_def split: prod.splits option.splits)
    have "pages_mapped w1 a cap" using mm by (rule os_mmap_pages_mapped)
    then show "ResizableMappedMemory_size r = 0 \<and> pages_mapped w (mm_address (rmm_reserved r)) cap"
      using sz same a by (simp add: ResizableMappedMemory_size_def)
  qed
  show ?thesis
    using base cap fresh
    by (auto simp: ResizableMappedMemory_data_def ResizableMappedMemory_size_def
                   ResizableMappedMemory_capacity_def)
qed

theorem data_null_iff_empty_witness:
  "os_ok world0 \<and> memory_session 0 10000 [] world0 \<noteq> None \<and>
   ResizableMappedMemory_data (fst (the (memory_session 0 10000 [] world0))) = 0 \<and>
   ResizableMappedMemory_size (fst (the (memory_session 0 10000 [] world0))) = 0 \<and>
   mm_address (rmm_reserved (fst (the (memory_session 0 10000 [] world0)))) \<noteq> 0 \<and>
   pages_mapped (snd (the (memory_session 0 10000 [] world0)))
     (mm_address (rmm_reserved (fst (the (memory_session 0 10000 [] world0))))) 10000"
proof -
  let ?S = "memory_session 0 10000 [] world0"
  have ok: "?S \<noteq> None" by (simp add: os_defs lib_defs world_defs)
  then have h: "?S = Some (fst (the ?S), snd (the ?S))" by auto
  show ?thesis
    using os_ok_world0 ok data_null_iff_empty[OF os_ok_world0 h] by simp
qed

text \<open>
  C4. Shrinking or growing a \<^verbatim>\<open>ResizableMappedMemory\<close> keeps the retained prefix: for
  an object reached by construction and any run of resizes and stores, a successful
  \<^verbatim>\<open>resize(size_new)\<close> leaves what a load at \<^verbatim>\<open>data() + k\<close> yields unchanged, for every
  \<open>k\<close> below both the old and the new size (and \<^verbatim>\<open>data()\<close> itself does not move).
\<close>

theorem shrink_grow_preserves_prefix:
  assumes "os_ok w0" and "memory_session init cap acts w0 = Some (r, w)"
    and "ResizableMappedMemory_resize n r w = (None, r', w')"
    and "k < min (ResizableMappedMemory_size r) n"
  shows "peek w' (ResizableMappedMemory_data r' + k) = peek w (ResizableMappedMemory_data r + k) \<and>
         ResizableMappedMemory_data r' = ResizableMappedMemory_data r"
proof -
  have inv: "rmm_inv (w_pagesize w) r" using memory_session_inv[OF assms(1,2)] by (rule conjunct1)
  have k: "k < min (rmm_size r) n" using assms(4) by (simp add: ResizableMappedMemory_size_def)
  have r': "rmm_reserved r' = rmm_reserved r \<and> rmm_size r' = n"
    using rmm_resize_inv[OF inv assms(3)] by simp
  have d: "ResizableMappedMemory_data r = mm_address (rmm_reserved r)"
    using k by (simp add: ResizableMappedMemory_data_def)
  have d': "ResizableMappedMemory_data r' = mm_address (rmm_reserved r)"
    using k r' by (simp add: ResizableMappedMemory_data_def)
  show ?thesis using rmm_resize_prefix[OF inv assms(3) k] d d' by simp
qed

theorem shrink_grow_preserves_prefix_witness:
  "os_ok world0 \<and> memory_session 5000 10000 [Store 65536 7] world0 \<noteq> None \<and>
   fst (ResizableMappedMemory_resize 8
          (fst (the (memory_session 5000 10000 [Store 65536 7] world0)))
          (snd (the (memory_session 5000 10000 [Store 65536 7] world0)))) = None \<and>
   (0::nat) < min (ResizableMappedMemory_size
                     (fst (the (memory_session 5000 10000 [Store 65536 7] world0)))) 8 \<and>
   peek (snd (the (memory_session 5000 10000 [Store 65536 7] world0))) 65536 = Some 7 \<and>
   peek (snd (snd (ResizableMappedMemory_resize 8
          (fst (the (memory_session 5000 10000 [Store 65536 7] world0)))
          (snd (the (memory_session 5000 10000 [Store 65536 7] world0)))))) 65536 = Some 7"
proof -
  let ?S = "memory_session 5000 10000 [Store 65536 7] world0"
  let ?X = "ResizableMappedMemory_resize 8 (fst (the ?S)) (snd (the ?S))"
  have ok: "?S \<noteq> None" by (simp add: os_defs lib_defs world_defs)
  then have h: "?S = Some (fst (the ?S), snd (the ?S))" by auto
  have okx: "fst ?X = None" by (simp add: os_defs lib_defs world_defs)
  then have hx: "?X = (None, fst (snd ?X), snd (snd ?X))" by (simp add: prod_eq_iff)
  have k: "(0::nat) < min (ResizableMappedMemory_size (fst (the ?S))) 8"
    by (simp add: os_defs lib_defs world_defs)
  have d: "ResizableMappedMemory_data (fst (the ?S)) = 65536"
    by (simp add: os_defs lib_defs world_defs)
  have p: "peek (snd (the ?S)) 65536 = Some 7"
    by (simp add: os_defs lib_defs world_defs)
  have a: "peek (snd (snd ?X)) (ResizableMappedMemory_data (fst (snd ?X)) + 0) =
             peek (snd (the ?S)) (ResizableMappedMemory_data (fst (the ?S)) + 0)"
    and b: "ResizableMappedMemory_data (fst (snd ?X)) = ResizableMappedMemory_data (fst (the ?S))"
    using shrink_grow_preserves_prefix[OF os_ok_world0 h hx k] by auto
  have "peek (snd (snd ?X)) 65536 = Some 7" using a b d p by simp
  then show ?thesis using os_ok_world0 ok okx k p by simp
qed

text \<open>
  C1 (as amended). Address stability: for a \<^verbatim>\<open>ResizableMappedFile\<close> or a
  \<^verbatim>\<open>ResizableMappedMemory\<close>, take any two moments of one life of the object
  (construction, then any resizes and stores; then any further ones). The reservation
  is the same at both. Whenever \<^verbatim>\<open>size()\<close> is positive, \<^verbatim>\<open>data()\<close> is the base address
  of the reservation, which is not null; so \<^verbatim>\<open>data()\<close> is the same pointer at both
  moments when \<^verbatim>\<open>size()\<close> is positive at both. Whenever \<^verbatim>\<open>size()\<close> is zero, as after
  \<^verbatim>\<open>resize(0)\<close> and also right after the construction of an empty object, \<^verbatim>\<open>data()\<close>
  is null.
\<close>

theorem address_stability:
  "(os_ok w0 \<and> file_session path cap acts w0 = Some (rf, w) \<and>
    file_session path cap (acts @ acts') w0 = Some (rf', w') \<longrightarrow>
      rmf_reserved rf' = rmf_reserved rf \<and>
      mm_address (rmf_reserved rf) \<noteq> 0 \<and>
      (ResizableMappedFile_size rf = 0 \<longrightarrow> ResizableMappedFile_data rf = 0) \<and>
      (0 < ResizableMappedFile_size rf \<longrightarrow>
         ResizableMappedFile_data rf = mm_address (rmf_reserved rf)) \<and>
      (0 < ResizableMappedFile_size rf \<longrightarrow> ResizableMappedFile_data rf \<noteq> 0) \<and>
      (0 < ResizableMappedFile_size rf \<and> 0 < ResizableMappedFile_size rf' \<longrightarrow>
         ResizableMappedFile_data rf' = ResizableMappedFile_data rf)) \<and>
   (os_ok v0 \<and> memory_session init mcap macts v0 = Some (rm, v) \<and>
    memory_session init mcap (macts @ macts') v0 = Some (rm', v') \<longrightarrow>
      rmm_reserved rm' = rmm_reserved rm \<and>
      mm_address (rmm_reserved rm) \<noteq> 0 \<and>
      (ResizableMappedMemory_size rm = 0 \<longrightarrow> ResizableMappedMemory_data rm = 0) \<and>
      (0 < ResizableMappedMemory_size rm \<longrightarrow>
         ResizableMappedMemory_data rm = mm_address (rmm_reserved rm)) \<and>
      (0 < ResizableMappedMemory_size rm \<longrightarrow> ResizableMappedMemory_data rm \<noteq> 0) \<and>
      (0 < ResizableMappedMemory_size rm \<and> 0 < ResizableMappedMemory_size rm' \<longrightarrow>
         ResizableMappedMemory_data rm' = ResizableMappedMemory_data rm))"
proof (intro conjI impI; elim conjE)
  assume ok: "os_ok w0" and s: "file_session path cap acts w0 = Some (rf, w)"
    and s': "file_session path cap (acts @ acts') w0 = Some (rf', w')"
  have i: "rmf_inv (w_pagesize w) rf" using file_session_inv[OF ok s] by (rule conjunct1)
  have i': "rmf_inv (w_pagesize w') rf'" using file_session_inv[OF ok s'] by (rule conjunct1)
  have run: "run_file acts' rf w = Some (rf', w')" using s s' by (rule file_session_append)
  show same: "rmf_reserved rf' = rmf_reserved rf" using run_file_inv[OF i run] by simp
  show "mm_address (rmf_reserved rf) \<noteq> 0" using rmf_data_size[OF i] by simp
  {
    assume "ResizableMappedFile_size rf = 0"
    then show "ResizableMappedFile_data rf = 0" using rmf_data_size[OF i] by simp
  }
  {
    assume "0 < ResizableMappedFile_size rf"
    then show "ResizableMappedFile_data rf = mm_address (rmf_reserved rf)"
      using rmf_data_size[OF i] by simp
  }
  {
    assume "0 < ResizableMappedFile_size rf"
    then show "ResizableMappedFile_data rf \<noteq> 0" using rmf_data_size[OF i] by simp
  }
  {
    assume "0 < ResizableMappedFile_size rf" and "0 < ResizableMappedFile_size rf'"
    then show "ResizableMappedFile_data rf' = ResizableMappedFile_data rf"
      using rmf_data_size[OF i] rmf_data_size[OF i'] same by simp
  }
next
  assume ok: "os_ok v0" and s: "memory_session init mcap macts v0 = Some (rm, v)"
    and s': "memory_session init mcap (macts @ macts') v0 = Some (rm', v')"
  have i: "rmm_inv (w_pagesize v) rm" using memory_session_inv[OF ok s] by (rule conjunct1)
  have i': "rmm_inv (w_pagesize v') rm'" using memory_session_inv[OF ok s'] by (rule conjunct1)
  have run: "run_memory macts' rm v = Some (rm', v')" using s s' by (rule memory_session_append)
  show same: "rmm_reserved rm' = rmm_reserved rm" using run_memory_inv[OF i run] by simp
  show "mm_address (rmm_reserved rm) \<noteq> 0" using rmm_data_size[OF i] by simp
  {
    assume "ResizableMappedMemory_size rm = 0"
    then show "ResizableMappedMemory_data rm = 0" using rmm_data_size[OF i] by simp
  }
  {
    assume "0 < ResizableMappedMemory_size rm"
    then show "ResizableMappedMemory_data rm = mm_address (rmm_reserved rm)"
      using rmm_data_size[OF i] by simp
  }
  {
    assume "0 < ResizableMappedMemory_size rm"
    then show "ResizableMappedMemory_data rm \<noteq> 0" using rmm_data_size[OF i] by simp
  }
  {
    assume "0 < ResizableMappedMemory_size rm" and "0 < ResizableMappedMemory_size rm'"
    then show "ResizableMappedMemory_data rm' = ResizableMappedMemory_data rm"
      using rmm_data_size[OF i] rmm_data_size[OF i'] same by simp
  }
qed

theorem address_stability_witness:
  "os_ok world0 \<and>
   file_session ''t2'' 1500 [Resize 13] world0 \<noteq> None \<and>
   file_session ''t2'' 1500 ([Resize 13] @ [Resize 100]) world0 \<noteq> None \<and>
   0 < ResizableMappedFile_size (fst (the (file_session ''t2'' 1500 [Resize 13] world0))) \<and>
   0 < ResizableMappedFile_size (fst (the (file_session ''t2'' 1500 ([Resize 13] @ [Resize 100]) world0))) \<and>
   mm_address (rmf_reserved (fst (the (file_session ''t2'' 1500 [Resize 13] world0)))) = 65536 \<and>
   ResizableMappedFile_data (fst (the (file_session ''t2'' 1500 [Resize 13] world0))) = 65536 \<and>
   ResizableMappedFile_data (fst (the (file_session ''t2'' 1500 ([Resize 13] @ [Resize 100]) world0))) = 65536 \<and>
   memory_session 0 10000 [Resize 13] world0 \<noteq> None \<and>
   memory_session 0 10000 ([Resize 13] @ [Resize 5000]) world0 \<noteq> None \<and>
   0 < ResizableMappedMemory_size (fst (the (memory_session 0 10000 [Resize 13] world0))) \<and>
   0 < ResizableMappedMemory_size (fst (the (memory_session 0 10000 ([Resize 13] @ [Resize 5000]) world0))) \<and>
   mm_address (rmm_reserved (fst (the (memory_session 0 10000 [Resize 13] world0)))) = 65536 \<and>
   ResizableMappedMemory_data (fst (the (memory_session 0 10000 [Resize 13] world0))) = 65536 \<and>
   ResizableMappedMemory_data (fst (the (memory_session 0 10000 ([Resize 13] @ [Resize 5000]) world0))) = 65536"
proof -
  let ?F = "file_session ''t2'' 1500 [Resize 13] world0"
  let ?F' = "file_session ''t2'' 1500 ([Resize 13] @ [Resize 100]) world0"
  let ?M = "memory_session 0 10000 [Resize 13] world0"
  let ?M' = "memory_session 0 10000 ([Resize 13] @ [Resize 5000]) world0"
  have f: "?F \<noteq> None" by (simp add: os_defs lib_defs world_defs)
  have f': "?F' \<noteq> None" by (simp add: os_defs lib_defs world_defs)
  have m: "?M \<noteq> None" by (simp add: os_defs lib_defs world_defs)
  have m': "?M' \<noteq> None" by (simp add: os_defs lib_defs world_defs)
  have hf: "?F = Some (fst (the ?F), snd (the ?F))" using f by auto
  have hf': "?F' = Some (fst (the ?F'), snd (the ?F'))" using f' by auto
  have hm: "?M = Some (fst (the ?M), snd (the ?M))" using m by auto
  have hm': "?M' = Some (fst (the ?M'), snd (the ?M'))" using m' by auto
  have sf: "0 < ResizableMappedFile_size (fst (the ?F))"
    by (simp add: os_defs lib_defs world_defs)
  have sf': "0 < ResizableMappedFile_size (fst (the ?F'))"
    by (simp add: os_defs lib_defs world_defs)
  have sm: "0 < ResizableMappedMemory_size (fst (the ?M))"
    by (simp add: os_defs lib_defs world_defs)
  have sm': "0 < ResizableMappedMemory_size (fst (the ?M'))"
    by (simp add: os_defs lib_defs world_defs)
  have bf: "mm_address (rmf_reserved (fst (the ?F))) = 65536"
    by (simp add: os_defs lib_defs world_defs)
  have bm: "mm_address (rmm_reserved (fst (the ?M))) = 65536"
    by (simp add: os_defs lib_defs world_defs)
  have pf: "os_ok world0 \<and> ?F = Some (fst (the ?F), snd (the ?F)) \<and>
            ?F' = Some (fst (the ?F'), snd (the ?F'))"
    using os_ok_world0 hf hf' by blast
  have pm: "os_ok world0 \<and> ?M = Some (fst (the ?M), snd (the ?M)) \<and>
            ?M' = Some (fst (the ?M'), snd (the ?M'))"
    using os_ok_world0 hm hm' by blast
  note t = address_stability[of world0 "''t2''" 1500 "[Resize 13]" "fst (the ?F)" "snd (the ?F)"
             "[Resize 100]" "fst (the ?F')" "snd (the ?F')"
             world0 0 10000 "[Resize 13]" "fst (the ?M)" "snd (the ?M)"
             "[Resize 5000]" "fst (the ?M')" "snd (the ?M')"]
  have df: "ResizableMappedFile_data (fst (the ?F)) = mm_address (rmf_reserved (fst (the ?F)))"
    using t pf sf by blast
  have df': "ResizableMappedFile_data (fst (the ?F')) = ResizableMappedFile_data (fst (the ?F))"
    using t pf sf sf' by blast
  have dm: "ResizableMappedMemory_data (fst (the ?M)) = mm_address (rmm_reserved (fst (the ?M)))"
    using t pm sm by blast
  have dm': "ResizableMappedMemory_data (fst (the ?M')) = ResizableMappedMemory_data (fst (the ?M))"
    using t pm sm sm' by blast
  show ?thesis
    using os_ok_world0 f f' m m' sf sf' sm sm' bf bm df df' dm dm' by simp
qed

text \<open>The claim as stated also covers the pointer observed before the first
  \<^verbatim>\<open>resize\<close>. An object constructed empty has a null \<^verbatim>\<open>data()\<close> then, and the base of
  the reservation after \<^verbatim>\<open>resize(13)\<close>: before and after differ, and no \<^verbatim>\<open>resize(0)\<close>
  came in between. The tests expect exactly this
  (\<^verbatim>\<open>EXPECT_EQ(file.data(), nullptr)\<close> after construction).\<close>

theorem address_stability_counterexample:
  "file_session ''t2'' 1500 [] world0 \<noteq> None \<and>
   ResizableMappedFile_data (fst (the (file_session ''t2'' 1500 [] world0))) = 0 \<and>
   file_session ''t2'' 1500 [Resize 13] world0 \<noteq> None \<and>
   ResizableMappedFile_size (fst (the (file_session ''t2'' 1500 [Resize 13] world0))) = 13 \<and>
   ResizableMappedFile_data (fst (the (file_session ''t2'' 1500 [Resize 13] world0))) = 65536 \<and>
   memory_session 0 10000 [] world0 \<noteq> None \<and>
   ResizableMappedMemory_data (fst (the (memory_session 0 10000 [] world0))) = 0 \<and>
   memory_session 0 10000 [Resize 13] world0 \<noteq> None \<and>
   ResizableMappedMemory_size (fst (the (memory_session 0 10000 [Resize 13] world0))) = 13 \<and>
   ResizableMappedMemory_data (fst (the (memory_session 0 10000 [Resize 13] world0))) = 65536 \<and>
   ResizableMappedFile_data (fst (the (file_session ''t2'' 1500 [Resize 13] world0)))
     \<noteq> ResizableMappedFile_data (fst (the (file_session ''t2'' 1500 [] world0))) \<and>
   ResizableMappedMemory_data (fst (the (memory_session 0 10000 [Resize 13] world0)))
     \<noteq> ResizableMappedMemory_data (fst (the (memory_session 0 10000 [] world0)))"
  by (simp add: os_defs lib_defs world_defs)

text \<open>
  C5 (as amended). Constructing a \<^verbatim>\<open>ResizableMappedFile\<close> on an existing file that is
  longer than the capacity always fails and never modifies the file. The constructor
  first reserves \<open>capacity\<close> bytes, then opens the file and reads its size, and on a
  failure releases the reservation again. The failure is \<^verbatim>\<open>std::bad_alloc\<close> whenever
  the reservation, the open and the \<^verbatim>\<open>fstat\<close> succeed and the reservation is released
  successfully; that is the case when the capacity is positive, the address space has
  room for the reservation and no system call fails for an outside reason. A failed
  reservation gives \<^verbatim>\<open>mapping_error\<close>, and a capacity of 0 always fails so, \<^verbatim>\<open>mmap\<close>
  rejecting the length; a failed open gives \<^verbatim>\<open>mapped_file_error\<close> and a failed
  \<^verbatim>\<open>fstat\<close> gives \<^verbatim>\<open>mapping_error\<close>, when the reservation is released successfully; a
  \<^verbatim>\<open>munmap\<close> that fails while the reservation is released ends the program
  (\<^verbatim>\<open>std::terminate\<close>).
\<close>

theorem oversized_file_construction:
  assumes "w_files w path = Some bs" and "cap < length bs"
  shows "isl (fst (ResizableMappedFile_ctor path cap w)) \<and>
         w_files (snd (ResizableMappedFile_ctor path cap w)) = w_files w \<and>
         (os_ok w \<and> w_faults w = [] \<and> 0 < cap \<and>
          w_brk w + page_ceil (w_pagesize w) cap \<le> w_top w \<longrightarrow>
            fst (ResizableMappedFile_ctor path cap w) = Inl bad_alloc) \<and>
         (cap = 0 \<longrightarrow> fst (ResizableMappedFile_ctor path cap w) = Inl mapping_error) \<and>
         (\<forall>e w1.
            MemoryMap_ctor {} 0 cap {MAP_PRIVATE, MAP_ANONYMOUS, MAP_NORESERVE} None 0 w = (Inl e, w1) \<longrightarrow>
              ResizableMappedFile_ctor path cap w = (Inl mapping_error, w1)) \<and>
         (\<forall>m w1 e w2 r w3.
            MemoryMap_ctor {} 0 cap {MAP_PRIVATE, MAP_ANONYMOUS, MAP_NORESERVE} None 0 w = (Inr m, w1) \<and>
            FileDescriptor_ctor path {O_CREAT, O_RDWR} w1 = (Inl e, w2) \<and>
            MemoryMap_dtor m w2 = (r, w3) \<longrightarrow>
              ResizableMappedFile_ctor path cap w =
                (Inl (if r = None then mapped_file_error else terminated), w3)) \<and>
         (\<forall>m w1 fd w2 e w3 r w4.
            MemoryMap_ctor {} 0 cap {MAP_PRIVATE, MAP_ANONYMOUS, MAP_NORESERVE} None 0 w = (Inr m, w1) \<and>
            FileDescriptor_ctor path {O_CREAT, O_RDWR} w1 = (Inr fd, w2) \<and>
            FileDescriptor_size fd w2 = (Inl e, w3) \<and>
            MemoryMap_dtor m w3 = (r, w4) \<longrightarrow>
              ResizableMappedFile_ctor path cap w =
                (Inl (if r = None then mapping_error else terminated), w4)) \<and>
         (\<forall>m w1 fd w2 n w3 r w4.
            MemoryMap_ctor {} 0 cap {MAP_PRIVATE, MAP_ANONYMOUS, MAP_NORESERVE} None 0 w = (Inr m, w1) \<and>
            FileDescriptor_ctor path {O_CREAT, O_RDWR} w1 = (Inr fd, w2) \<and>
            FileDescriptor_size fd w2 = (Inr n, w3) \<and>
            MemoryMap_dtor m w3 = (r, w4) \<longrightarrow>
              ResizableMappedFile_ctor path cap w =
                (Inl (if r = None then bad_alloc else terminated), w4))"
proof -
  obtain res w' where c: "ResizableMappedFile_ctor path cap w = (res, w')"
    by (cases "ResizableMappedFile_ctor path cap w") auto
  have 1: "isl res \<and> w_files w' = w_files w" using assms c by (rule rmf_ctor_oversized)
  have 2: "cap = 0 \<longrightarrow> fst (ResizableMappedFile_ctor path cap w) = Inl mapping_error"
    using rmf_ctor_zero_capacity[of path w] by auto
  have u: "\<And>m e v r v'. MemoryMap_dtor m v = (r, v') \<Longrightarrow>
             (unwind_reserved m e v :: (error + ResizableMappedFile) \<times> world) =
               (Inl (if r = None then e else terminated), v')"
  proof -
    fix m e v r v' assume d: "MemoryMap_dtor m v = (r, v')"
    show "(unwind_reserved m e v :: (error + ResizableMappedFile) \<times> world) =
               (Inl (if r = None then e else terminated), v')"
    proof (cases r)
      case None
      then show ?thesis using d unwind_reserved_cases[of m v v' e] by simp
    next
      case (Some t)
      then show ?thesis using d unwind_reserved_cases[of m v v' e t] by simp
    qed
  qed
  note st = rmf_ctor_oversized_steps[OF assms]
  have 3: "\<forall>e w1.
            MemoryMap_ctor {} 0 cap {MAP_PRIVATE, MAP_ANONYMOUS, MAP_NORESERVE} None 0 w = (Inl e, w1) \<longrightarrow>
              ResizableMappedFile_ctor path cap w = (Inl mapping_error, w1)"
    using st by blast
  have 4: "\<forall>m w1 e w2 r w3.
            MemoryMap_ctor {} 0 cap {MAP_PRIVATE, MAP_ANONYMOUS, MAP_NORESERVE} None 0 w = (Inr m, w1) \<and>
            FileDescriptor_ctor path {O_CREAT, O_RDWR} w1 = (Inl e, w2) \<and>
            MemoryMap_dtor m w2 = (r, w3) \<longrightarrow>
              ResizableMappedFile_ctor path cap w =
                (Inl (if r = None then mapped_file_error else terminated), w3)"
  proof (intro allI impI; elim conjE)
    fix m w1 e w2 r w3
    assume a: "MemoryMap_ctor {} 0 cap {MAP_PRIVATE, MAP_ANONYMOUS, MAP_NORESERVE} None 0 w = (Inr m, w1)"
      "FileDescriptor_ctor path {O_CREAT, O_RDWR} w1 = (Inl e, w2)"
      and d: "MemoryMap_dtor m w2 = (r, w3)"
    have "ResizableMappedFile_ctor path cap w = unwind_reserved m mapped_file_error w2"
      using st a by blast
    then show "ResizableMappedFile_ctor path cap w =
                (Inl (if r = None then mapped_file_error else terminated), w3)"
      using u[OF d] by simp
  qed
  have 5: "\<forall>m w1 fd w2 e w3 r w4.
            MemoryMap_ctor {} 0 cap {MAP_PRIVATE, MAP_ANONYMOUS, MAP_NORESERVE} None 0 w = (Inr m, w1) \<and>
            FileDescriptor_ctor path {O_CREAT, O_RDWR} w1 = (Inr fd, w2) \<and>
            FileDescriptor_size fd w2 = (Inl e, w3) \<and>
            MemoryMap_dtor m w3 = (r, w4) \<longrightarrow>
              ResizableMappedFile_ctor path cap w =
                (Inl (if r = None then mapping_error else terminated), w4)"
  proof (intro allI impI; elim conjE)
    fix m w1 fd w2 e w3 r w4
    assume a: "MemoryMap_ctor {} 0 cap {MAP_PRIVATE, MAP_ANONYMOUS, MAP_NORESERVE} None 0 w = (Inr m, w1)"
      "FileDescriptor_ctor path {O_CREAT, O_RDWR} w1 = (Inr fd, w2)"
      "FileDescriptor_size fd w2 = (Inl e, w3)"
      and d: "MemoryMap_dtor m w3 = (r, w4)"
    have "ResizableMappedFile_ctor path cap w = unwind_reserved m mapping_error w3"
      using st a by blast
    then show "ResizableMappedFile_ctor path cap w =
                (Inl (if r = None then mapping_error else terminated), w4)"
      using u[OF d] by simp
  qed
  have 6: "\<forall>m w1 fd w2 n w3 r w4.
            MemoryMap_ctor {} 0 cap {MAP_PRIVATE, MAP_ANONYMOUS, MAP_NORESERVE} None 0 w = (Inr m, w1) \<and>
            FileDescriptor_ctor path {O_CREAT, O_RDWR} w1 = (Inr fd, w2) \<and>
            FileDescriptor_size fd w2 = (Inr n, w3) \<and>
            MemoryMap_dtor m w3 = (r, w4) \<longrightarrow>
              ResizableMappedFile_ctor path cap w =
                (Inl (if r = None then bad_alloc else terminated), w4)"
  proof (intro allI impI; elim conjE)
    fix m w1 fd w2 n w3 r w4
    assume a: "MemoryMap_ctor {} 0 cap {MAP_PRIVATE, MAP_ANONYMOUS, MAP_NORESERVE} None 0 w = (Inr m, w1)"
      "FileDescriptor_ctor path {O_CREAT, O_RDWR} w1 = (Inr fd, w2)"
      "FileDescriptor_size fd w2 = (Inr n, w3)"
      and d: "MemoryMap_dtor m w3 = (r, w4)"
    have "ResizableMappedFile_ctor path cap w = unwind_reserved m bad_alloc w3"
      using st a by blast
    then show "ResizableMappedFile_ctor path cap w =
                (Inl (if r = None then bad_alloc else terminated), w4)"
      using u[OF d] by simp
  qed
  have 0: "isl (fst (ResizableMappedFile_ctor path cap w)) \<and>
         w_files (snd (ResizableMappedFile_ctor path cap w)) = w_files w \<and>
         (os_ok w \<and> w_faults w = [] \<and> 0 < cap \<and>
          w_brk w + page_ceil (w_pagesize w) cap \<le> w_top w \<longrightarrow>
            fst (ResizableMappedFile_ctor path cap w) = Inl bad_alloc)"
    using 1 c rmf_ctor_oversized_bad_alloc[OF assms] by simp
  show ?thesis using 0 2 3 4 5 6 by (intro conjI) blast+
qed

theorem oversized_file_construction_witness:
  "w_files world_t2 ''t2'' = Some (replicate 1500 0) \<and> (1499::nat) < length (replicate 1500 (0::byte)) \<and>
   os_ok world_t2 \<and> w_faults world_t2 = [] \<and> (0::nat) < 1499 \<and>
   w_brk world_t2 + page_ceil (w_pagesize world_t2) 1499 \<le> w_top world_t2 \<and>
   fst (ResizableMappedFile_ctor ''t2'' 1499 world_t2) = Inl bad_alloc \<and>
   w_files (snd (ResizableMappedFile_ctor ''t2'' 1499 world_t2)) = w_files world_t2 \<and>
   (0::nat) < length (replicate 1500 (0::byte)) \<and>
   fst (ResizableMappedFile_ctor ''t2'' 0 world_t2) = Inl mapping_error \<and>
   w_files (snd (ResizableMappedFile_ctor ''t2'' 0 world_t2)) = w_files world_t2"
proof -
  have f: "w_files world_t2 ''t2'' = Some (replicate 1500 0)"
    by (simp add: world_t2_def world0_def)
  have lt: "(1499::nat) < length (replicate 1500 (0::byte))" by simp
  have lt0: "(0::nat) < length (replicate 1500 (0::byte))" by simp
  have nf: "w_faults world_t2 = []" by (simp add: world_t2_def world0_def)
  have pos: "(0::nat) < 1499" by simp
  have room: "w_brk world_t2 + page_ceil (w_pagesize world_t2) 1499 \<le> w_top world_t2"
    by (simp add: world_t2_def world0_def page_ceil_def)
  note t = oversized_file_construction[OF f lt]
  note t0 = oversized_file_construction[OF f lt0]
  have a: "fst (ResizableMappedFile_ctor ''t2'' 1499 world_t2) = Inl bad_alloc"
    using t os_ok_world_t2 nf pos room by blast
  have b: "w_files (snd (ResizableMappedFile_ctor ''t2'' 1499 world_t2)) = w_files world_t2"
    using t by blast
  have a0: "fst (ResizableMappedFile_ctor ''t2'' 0 world_t2) = Inl mapping_error"
    using t0 by blast
  have b0: "w_files (snd (ResizableMappedFile_ctor ''t2'' 0 world_t2)) = w_files world_t2"
    using t0 by blast
  show ?thesis
    using f lt lt0 nf pos room os_ok_world_t2 a b a0 b0 by blast
qed

text \<open>With capacity 0 the constructor cannot even make its reservation
  (\<^verbatim>\<open>mmap\<close> rejects a length of zero): the 1500-byte file is then refused with the
  library's \<^verbatim>\<open>mapping_error\<close>, not with \<^verbatim>\<open>std::bad_alloc\<close>.\<close>

theorem oversized_file_construction_counterexample:
  "w_files world_t2 ''t2'' = Some (replicate 1500 0) \<and> (0::nat) < length (replicate 1500 (0::byte)) \<and>
   fst (ResizableMappedFile_ctor ''t2'' 0 world_t2) = Inl mapping_error \<and>
   fst (ResizableMappedFile_ctor ''t2'' 0 world_t2) \<noteq> Inl bad_alloc"
  by (simp add: os_defs lib_defs world_defs)

text \<open>
  C6. The claim is that bytes stored through a writable whole-file mapping are in the
  file once the mapping is dropped. The code does otherwise: \<^verbatim>\<open>writable_file(path)\<close>
  maps with the default \<^verbatim>\<open>mapFlags = MAP_PRIVATE\<close>, the stores go to private
  copy-on-write pages, and the file of the fixture still holds 42 after 123 was
  stored over it and the mapping dropped.
\<close>

theorem writable_mapping_not_persisted:
  "Writable_test ''test.dat'' [123, 0, 0, 0] world_test = Some [42, 0, 0, 0]"
  by (simp add: os_defs lib_defs world_defs)

text \<open>
  C9 (as amended). Whole-file mapping of an empty file: constructing the read-only or
  the writable mapping of an existing file of length 0 fails and maps nothing; unless
  an earlier system call fails for an outside reason the error is the library's
  \<^verbatim>\<open>mapping_error\<close>, \<^verbatim>\<open>mmap\<close> having rejected the length 0. A whole-file mapping whose
  construction succeeds has the length of the file as its \<^verbatim>\<open>size()\<close>, which is
  positive, and a non-null \<^verbatim>\<open>data()\<close>.
\<close>

theorem empty_file_mapping:
  "(w_files w path = Some [] \<longrightarrow>
      isl (fst (MappedFile_open Writable path w)) \<and>
      w_pages (snd (MappedFile_open Writable path w)) = w_pages w \<and>
      (w_faults w = [] \<longrightarrow> fst (MappedFile_open Writable path w) = Inl mapping_error)) \<and>
   (MappedFile_open Writable' path' v = (Inr f, v') \<longrightarrow>
      (\<exists>bs. w_files v path' = Some bs \<and> MappedFile_size f = length bs) \<and>
      0 < MappedFile_size f \<and>
      (os_ok v \<longrightarrow> MappedFile_data f \<noteq> 0))"
proof (intro conjI impI)
  assume e: "w_files w path = Some []"
  show "isl (fst (MappedFile_open Writable path w))"
    and "w_pages (snd (MappedFile_open Writable path w)) = w_pages w"
    using MappedFile_ctor_empty[OF e, of Writable "{MAP_PRIVATE}"]
    by (simp_all add: MappedFile_open_def)
  assume "w_faults w = []"
  then show "fst (MappedFile_open Writable path w) = Inl mapping_error"
    using MappedFile_ctor_empty[OF e, of Writable "{MAP_PRIVATE}"]
    by (simp add: MappedFile_open_def)
next
  assume s: "MappedFile_open Writable' path' v = (Inr f, v')"
  then have c: "MappedFile_ctor Writable' path' {MAP_PRIVATE} v = (Inr f, v')"
    by (simp add: MappedFile_open_def)
  show "\<exists>bs. w_files v path' = Some bs \<and> MappedFile_size f = length bs"
    and "0 < MappedFile_size f"
    using MappedFile_ctor_success[OF c] by auto
  assume "os_ok v"
  then show "MappedFile_data f \<noteq> 0"
    using MappedFile_ctor_success[OF c] by auto
qed

theorem empty_file_mapping_witness:
  "w_files world_empty ''empty.dat'' = Some [] \<and> w_faults world_empty = [] \<and>
   fst (MappedFile_open False ''empty.dat'' world_empty) = Inl mapping_error \<and>
   fst (MappedFile_open True ''test.dat'' world_test) \<noteq> Inl mapping_error \<and>
   os_ok world_test \<and>
   \<not> isl (fst (MappedFile_open True ''test.dat'' world_test)) \<and>
   MappedFile_size (projr (fst (MappedFile_open True ''test.dat'' world_test))) = 4 \<and>
   0 < MappedFile_size (projr (fst (MappedFile_open True ''test.dat'' world_test))) \<and>
   MappedFile_data (projr (fst (MappedFile_open True ''test.dat'' world_test))) \<noteq> 0"
proof -
  let ?E = "MappedFile_open False ''empty.dat'' world_empty"
  let ?T = "MappedFile_open True ''test.dat'' world_test"
  have e: "w_files world_empty ''empty.dat'' = Some []" by (simp add: world_empty_def world0_def)
  have nf: "w_faults world_empty = []" by (simp add: world_empty_def world0_def)
  have r: "\<not> isl (fst ?T)" by (simp add: os_defs lib_defs world_defs)
  then have ne: "fst ?T \<noteq> Inl mapping_error" by auto
  have h: "?T = (Inr (projr (fst ?T)), snd ?T)" using r by (cases ?T) auto
  have sz: "MappedFile_size (projr (fst ?T)) = 4" by (simp add: os_defs lib_defs world_defs)
  have t: "(w_files world_empty ''empty.dat'' = Some [] \<longrightarrow>
      isl (fst ?E) \<and> w_pages (snd ?E) = w_pages world_empty \<and>
      (w_faults world_empty = [] \<longrightarrow> fst ?E = Inl mapping_error)) \<and>
   (?T = (Inr (projr (fst ?T)), snd ?T) \<longrightarrow>
      (\<exists>bs. w_files world_test ''test.dat'' = Some bs \<and> MappedFile_size (projr (fst ?T)) = length bs) \<and>
      0 < MappedFile_size (projr (fst ?T)) \<and>
      (os_ok world_test \<longrightarrow> MappedFile_data (projr (fst ?T)) \<noteq> 0))"
    by (rule empty_file_mapping)
  have a: "fst ?E = Inl mapping_error" using t e nf by blast
  have b: "0 < MappedFile_size (projr (fst ?T)) \<and> MappedFile_data (projr (fst ?T)) \<noteq> 0"
    using t h os_ok_world_test by blast
  show ?thesis using e nf a ne os_ok_world_test r sz b by blast
qed

text \<open>On the empty file of the example both constructions fail.\<close>

theorem empty_file_mapping_counterexample:
  "w_files world_empty ''empty.dat'' = Some [] \<and>
   fst (MappedFile_open False ''empty.dat'' world_empty) = Inl mapping_error \<and>
   fst (MappedFile_open True ''empty.dat'' world_empty) = Inl mapping_error"
  by (simp add: os_defs lib_defs world_defs)


text \<open>
  C8. \<^verbatim>\<open>sync(offset, length)\<close> of a resizable file, as the specification describes
  it: a range that reaches beyond \<^verbatim>\<open>size()\<close> is refused with a bounds violation and
  nothing is done; a range within \<^verbatim>\<open>[0, size()]\<close> is never refused for its bounds,
  and for an object reached by construction and any run of resizes and stores the
  flush succeeds unless the system call fails for an outside reason, changes no file
  contents, and leaves no byte of \<^verbatim>\<open>[offset, offset + length)\<close> of the file dirty.
\<close>

theorem sync_bounds_and_flush:
  "(ResizableMappedFile_size r < offset + len \<longrightarrow>
      ResizableMappedFile_sync offset len r w = (Some bounds_violation, w)) \<and>
   (offset + len \<le> ResizableMappedFile_size r \<longrightarrow>
      fst (ResizableMappedFile_sync offset len r w) \<noteq> Some bounds_violation) \<and>
   (os_ok w0 \<and> file_session path cap acts w0 = Some (r', v) \<and>
    offset' + len' \<le> ResizableMappedFile_size r' \<longrightarrow>
      (w_faults v = [] \<longrightarrow> fst (ResizableMappedFile_sync offset' len' r' v) = None) \<and>
      (\<forall>v'. ResizableMappedFile_sync offset' len' r' v = (None, v') \<longrightarrow>
            w_files v' = w_files v \<and>
            (\<forall>k. offset' \<le> k \<and> k < offset' + len' \<longrightarrow>
                 \<not> w_dirty v' (fd_path (rmf_file r')) k)))"
proof (intro conjI impI)
  assume "ResizableMappedFile_size r < offset + len"
  then show "ResizableMappedFile_sync offset len r w = (Some bounds_violation, w)"
    by (simp add: ResizableMappedFile_sync_def)
next
  assume "offset + len \<le> ResizableMappedFile_size r"
  then show "fst (ResizableMappedFile_sync offset len r w) \<noteq> Some bounds_violation"
    by (auto simp: ResizableMappedFile_sync_def split: option.splits prod.splits bool.splits)
next
  assume h: "os_ok w0 \<and> file_session path cap acts w0 = Some (r', v) \<and>
    offset' + len' \<le> ResizableMappedFile_size r'"
  then have inv: "rmf_inv (w_pagesize v) r'" using file_session_inv[of w0 path cap acts r' v] by blast
  have view: "view_ok v r'" using h file_session_view[of path cap acts w0 r' v] by blast
  have b: "offset' + len' \<le> ResizableMappedFile_size r'" using h by blast
  note sf = sync_flush[OF inv view b]
  {
    assume "w_faults v = []"
    then show "fst (ResizableMappedFile_sync offset' len' r' v) = None" using sf by blast
  }
  show "\<forall>v'. ResizableMappedFile_sync offset' len' r' v = (None, v') \<longrightarrow>
            w_files v' = w_files v \<and>
            (\<forall>k. offset' \<le> k \<and> k < offset' + len' \<longrightarrow>
                 \<not> w_dirty v' (fd_path (rmf_file r')) k)"
    using sf by blast
qed

theorem sync_bounds_and_flush_witness:
  "os_ok world0 \<and> file_session ''t2'' 1500 [Resize 13, Store 65536 7] world0 \<noteq> None \<and>
   ResizableMappedFile_size (fst (the (file_session ''t2'' 1500 [Resize 13, Store 65536 7] world0))) = 13 \<and>
   w_dirty (snd (the (file_session ''t2'' 1500 [Resize 13, Store 65536 7] world0))) ''t2'' 0 \<and>
   ResizableMappedFile_sync 10 4
       (fst (the (file_session ''t2'' 1500 [Resize 13, Store 65536 7] world0)))
       (snd (the (file_session ''t2'' 1500 [Resize 13, Store 65536 7] world0)))
     = (Some bounds_violation, snd (the (file_session ''t2'' 1500 [Resize 13, Store 65536 7] world0))) \<and>
   fst (ResizableMappedFile_sync 0 13
       (fst (the (file_session ''t2'' 1500 [Resize 13, Store 65536 7] world0)))
       (snd (the (file_session ''t2'' 1500 [Resize 13, Store 65536 7] world0)))) = None \<and>
   \<not> w_dirty (snd (ResizableMappedFile_sync 0 13
       (fst (the (file_session ''t2'' 1500 [Resize 13, Store 65536 7] world0)))
       (snd (the (file_session ''t2'' 1500 [Resize 13, Store 65536 7] world0))))) ''t2'' 0"
proof -
  let ?S = "file_session ''t2'' 1500 [Resize 13, Store 65536 7] world0"
  let ?R = "fst (the ?S)" and ?V = "snd (the ?S)"
  have ok: "?S \<noteq> None" by (simp add: os_defs lib_defs world_defs)
  then have h: "?S = Some (?R, ?V)" by auto
  have sz: "ResizableMappedFile_size ?R = 13" by (simp add: os_defs lib_defs world_defs)
  have d: "w_dirty ?V ''t2'' 0" by (simp add: os_defs lib_defs world_defs)
  have nf: "w_faults ?V = []" by (simp add: os_defs lib_defs world_defs)
  have p: "fd_path (rmf_file ?R) = ''t2''" by (simp add: os_defs lib_defs world_defs)
  have t: "(ResizableMappedFile_size ?R < 10 + 4 \<longrightarrow>
      ResizableMappedFile_sync 10 4 ?R ?V = (Some bounds_violation, ?V)) \<and>
   (10 + 4 \<le> ResizableMappedFile_size ?R \<longrightarrow>
      fst (ResizableMappedFile_sync 10 4 ?R ?V) \<noteq> Some bounds_violation) \<and>
   (os_ok world0 \<and> ?S = Some (?R, ?V) \<and>
    0 + 13 \<le> ResizableMappedFile_size ?R \<longrightarrow>
      (w_faults ?V = [] \<longrightarrow> fst (ResizableMappedFile_sync 0 13 ?R ?V) = None) \<and>
      (\<forall>v'. ResizableMappedFile_sync 0 13 ?R ?V = (None, v') \<longrightarrow>
            w_files v' = w_files ?V \<and>
            (\<forall>k. 0 \<le> k \<and> k < 0 + 13 \<longrightarrow> \<not> w_dirty v' (fd_path (rmf_file ?R)) k)))"
    by (rule sync_bounds_and_flush)
  have a: "ResizableMappedFile_sync 10 4 ?R ?V = (Some bounds_violation, ?V)"
    using t sz by simp
  have b: "fst (ResizableMappedFile_sync 0 13 ?R ?V) = None"
    using t os_ok_world0 h sz nf by simp
  then have e: "ResizableMappedFile_sync 0 13 ?R ?V = (None, snd (ResizableMappedFile_sync 0 13 ?R ?V))"
    by (simp add: prod_eq_iff)
  have pre: "os_ok world0 \<and> ?S = Some (?R, ?V) \<and> 0 + 13 \<le> ResizableMappedFile_size ?R"
    using os_ok_world0 h sz by simp
  have t3: "\<forall>v'. ResizableMappedFile_sync 0 13 ?R ?V = (None, v') \<longrightarrow>
            w_files v' = w_files ?V \<and>
            (\<forall>k. 0 \<le> k \<and> k < 0 + 13 \<longrightarrow> \<not> w_dirty v' (fd_path (rmf_file ?R)) k)"
    using t pre by blast
  have "(0::nat) \<le> 0 \<and> (0::nat) < 0 + 13" by simp
  then have "\<not> w_dirty (snd (ResizableMappedFile_sync 0 13 ?R ?V)) (fd_path (rmf_file ?R)) 0"
    using t3 e by blast
  then have c: "\<not> w_dirty (snd (ResizableMappedFile_sync 0 13 ?R ?V)) ''t2'' 0"
    using p by simp
  show ?thesis using os_ok_world0 ok sz d a b c by blast
qed

end
